theory Spec2Isabelle
  imports Main "HOL-Library.Word"
begin

section \<open>Data model of the progress face (progress\_face.h)\<close>

text \<open>
  The header declares two enums, a calendar value made of five bit-fields of 12, 4, 5, 5
  and 6 bits (in a union with a \<open>uint32_t\<close>), a pair of such values and the state of one
  face instance. Each bit-field is a word of its declared width, so that a store into a
  field truncates exactly as the C assignment does. A \<open>progress_datetime_t\<close> passed by
  value to the calendar functions is read through its five fields only.
\<close>

datatype progress_page_t = PROGRESS_PAGE_DISPLAY | PROGRESS_PAGE_START | PROGRESS_PAGE_END

datatype progress_setting_subpage_t =
  PROGRESS_SUBPAGE_YEAR | PROGRESS_SUBPAGE_MONTH | PROGRESS_SUBPAGE_DAY
  | PROGRESS_SUBPAGE_HOUR | PROGRESS_SUBPAGE_MINUTE

record progress_datetime_t =
  year :: "12 word"
  month :: "4 word"
  day :: "5 word"
  hour :: "5 word"
  minute :: "6 word"

text \<open>
  The bytes of a \<open>progress_dates_t\<close> hold more than the ten field values. With gcc a
  \<open>uint8_t\<close> bit-field does not straddle a byte: \<open>year\<close> and \<open>month\<close> fill bytes 0 and 1,
  \<open>day\<close> lies in byte 2, \<open>hour\<close> in byte 3 and \<open>minute\<close> in byte 4, and the union is
  padded to 8 bytes. So \<open>sizeof(progress_dates_t)\<close> is 16, and in each of the two unions 32
  bits belong to no field. \<open>memcmp\<close>, the file read and the file write see those bits;
  they are kept here as \<open>start_unused\<close> and \<open>end_unused\<close>. A store into a bit-field leaves
  them as they are, and the assignment of one union to another copies them.
\<close>

record progress_dates_t =
  start_datetime :: progress_datetime_t
  end_datetime :: progress_datetime_t
  start_unused :: "32 word"
  end_unused :: "32 word"

record progress_state_t =
  current_page :: progress_page_t
  current_subpage :: progress_setting_subpage_t
  face_index :: "8 word"
  dates :: progress_dates_t
  dates_changed :: bool
  quick_cycle :: bool

section \<open>Calendar arithmetic\<close>

text \<open>
  C's \<open>/\<close> on \<open>int\<close> truncates towards zero, HOL's \<open>div\<close> rounds down; the two differ
  on the negative numerator \<open>month - 14\<close>.
\<close>

definition c_div :: "int \<Rightarrow> int \<Rightarrow> int" where
  "c_div a b = (if (a < 0) = (b < 0) then \<bar>a\<bar> div \<bar>b\<bar> else - (\<bar>a\<bar> div \<bar>b\<bar>))"

text \<open>
  The Julian Day Number expression of \<open>_progress_datetime_to_minutes\<close>. The bit-fields
  are promoted to \<open>int\<close>, so the whole expression is evaluated in \<open>int\<close>; it is written
  here over the mathematical integers, and \<open>julian_day_int32\<close> below shows that no
  intermediate value leaves the range of a 32-bit \<open>int\<close>.
\<close>

definition julian_day :: "progress_datetime_t \<Rightarrow> int" where
  "julian_day dt =
     c_div (1461 * (uint (year dt) + 4800 + c_div (uint (month dt) - 14) 12)) 4
     + c_div (367 * (uint (month dt) - 2 - 12 * c_div (uint (month dt) - 14) 12)) 12
     - c_div (3 * c_div (uint (year dt) + 4900 + c_div (uint (month dt) - 14) 12) 100) 4
     + uint (day dt) - 32075"

text \<open>
  \<open>_progress_datetime_to_minutes\<close>: the day number is stored in a \<open>uint64_t\<close>, and
  \<open>julian_day * 24 * 60 + hour * 60 + minute\<close> is evaluated in 64-bit unsigned
  arithmetic (the \<open>int\<close> operands are converted).
\<close>

definition progress_datetime_to_minutes :: "progress_datetime_t \<Rightarrow> 64 word" where
  "progress_datetime_to_minutes dt =
     (word_of_int (julian_day dt) :: 64 word) * 24 * 60
     + word_of_int (uint (hour dt) * 60) + word_of_int (uint (minute dt))"

text \<open>
  \<open>_progress_datetime_compare dt1 dt2\<close>: both minute counts are cast to \<open>int64_t\<close> and
  subtracted, second argument minus first. Both counts are below \<open>2 ^ 33\<close>
  (\<open>linearMinutes_bounds\<close>), so the subtraction cannot overflow.
\<close>

definition progress_datetime_compare :: "progress_datetime_t \<Rightarrow> progress_datetime_t \<Rightarrow> int" where
  "progress_datetime_compare dt1 dt2 =
     sint (progress_datetime_to_minutes dt2) - sint (progress_datetime_to_minutes dt1)"

text \<open>
  The reading of the minute count as an exact integer (\<open>linearMinutes\<close> of the
  specification): Julian day times 1440 plus hour times 60 plus minute.
\<close>

definition linearMinutes :: "progress_datetime_t \<Rightarrow> int" where
  "linearMinutes dt = julian_day dt * 1440 + uint (hour dt) * 60 + uint (minute dt)"

text \<open>
  Valid calendar values: proleptic Gregorian dates with the fields in their documented
  ranges. Chronological order is the lexicographic order of (year, month, day, hour,
  minute).
\<close>

definition is_leap_year :: "int \<Rightarrow> bool" where
  "is_leap_year y = (y mod 4 = 0 \<and> (y mod 100 \<noteq> 0 \<or> y mod 400 = 0))"

definition month_length :: "int \<Rightarrow> int \<Rightarrow> int" where
  "month_length m y =
     (if m = 2 then (if is_leap_year y then 29 else 28)
      else if m = 4 \<or> m = 6 \<or> m = 9 \<or> m = 11 then 30 else 31)"

definition valid_datetime :: "progress_datetime_t \<Rightarrow> bool" where
  "valid_datetime dt =
     (1 \<le> uint (month dt) \<and> uint (month dt) \<le> 12
      \<and> 1 \<le> uint (day dt) \<and> uint (day dt) \<le> month_length (uint (month dt)) (uint (year dt))
      \<and> uint (hour dt) \<le> 23 \<and> uint (minute dt) \<le> 59)"

definition chrono_less :: "progress_datetime_t \<Rightarrow> progress_datetime_t \<Rightarrow> bool" where
  "chrono_less a b =
     (year a < year b
      \<or> (year a = year b \<and> (month a < month b
      \<or> (month a = month b \<and> (day a < day b
      \<or> (day a = day b \<and> (hour a < hour b
      \<or> (hour a = hour b \<and> minute a < minute b))))))))"


section \<open>The host: clock, buttons, tick frequency and byte store\<close>

text \<open>
  \<open>watch_date_time_t\<close>, \<open>WATCH_RTC_REFERENCE_YEAR\<close>, \<open>HAL_GPIO_BTN_ALARM_read\<close> and
  \<open>watch_utility_days_in_month\<close> are declared outside the two source files of the face.
  They are taken as parameters: \<open>host_t\<close> holds what one call of the face reads from
  the host. The clock fields are natural numbers, whatever their declared widths are.
\<close>

record watch_date_time_t =
  unit_year :: nat
  unit_month :: nat
  unit_day :: nat
  unit_hour :: nat
  unit_minute :: nat
  unit_second :: nat

record host_t =
  local_date_time :: watch_date_time_t
  WATCH_RTC_REFERENCE_YEAR :: nat
  btn_alarm :: bool
  days_in_month :: "nat \<Rightarrow> nat \<Rightarrow> nat"

text \<open>\<open>uint16_t current_year = now.unit.year + WATCH_RTC_REFERENCE_YEAR\<close>.\<close>

definition host_current_year :: "host_t \<Rightarrow> 16 word" where
  "host_current_year host =
     word_of_nat (unit_year (local_date_time host) + WATCH_RTC_REFERENCE_YEAR host)"

text \<open>
  Modelled from the spec: the key-value byte store behind \<open>filesystem_file_exists\<close>,
  \<open>filesystem_read_file\<close> and \<open>filesystem_write_file\<close> (filesystem.c is outside the
  source files of the face). A file of the face holds the 16 bytes of one date range, that
  is, its ten field values and the bits that belong to no field; two records are equal
  byte for byte exactly when both agree. A read of an existing file may fail and a write
  may be lost; every call of \<open>filesystem_write_file\<close> is logged.
\<close>

record filesystem_t =
  fs_files :: "string \<rightharpoonup> progress_dates_t"
  fs_read_ok :: "string \<Rightarrow> bool"
  fs_write_ok :: "string \<Rightarrow> bool"
  fs_writes :: "(string \<times> progress_dates_t) list"

text \<open>Modelled from the spec: \<open>fileExists(name)\<close>, whether a record is stored under the name.\<close>

definition filesystem_file_exists :: "filesystem_t \<Rightarrow> string \<Rightarrow> bool" where
  "filesystem_file_exists fs filename = (fs_files fs filename \<noteq> None)"

text \<open>
  Modelled from the spec: \<open>readFile(name, buffer, size)\<close>, the stored record when the read
  succeeds and \<open>None\<close> for the result \<open>false\<close>.
\<close>

definition filesystem_read_file :: "filesystem_t \<Rightarrow> string \<Rightarrow> progress_dates_t option" where
  "filesystem_read_file fs filename =
     (if fs_read_ok fs filename then fs_files fs filename else None)"

text \<open>
  Modelled from the spec: \<open>writeFile(name, buffer, size)\<close>, fire and forget: the call is
  logged, and the record is stored unless the write is lost.
\<close>

definition filesystem_write_file ::
  "filesystem_t \<Rightarrow> string \<Rightarrow> progress_dates_t \<Rightarrow> filesystem_t" where
  "filesystem_write_file fs filename d =
     fs\<lparr>fs_files := (if fs_write_ok fs filename then (fs_files fs)(filename \<mapsto> d)
                      else fs_files fs),
        fs_writes := fs_writes fs @ [(filename, d)]\<rparr>"

text \<open>What the face changes on the host side: the requested tick frequency and the store.\<close>

record movement_t =
  tick_frequency :: nat
  filesystem :: filesystem_t

section \<open>End-after-start check and field increments\<close>

text \<open>
  \<open>_progress_face_validate_end_datetime\<close>. The assignment
  \<open>state->dates.end_datetime = state->dates.start_datetime\<close> copies the whole union.
\<close>

definition progress_face_validate_end_datetime :: "progress_state_t \<Rightarrow> progress_state_t" where
  "progress_face_validate_end_datetime state =
     (if progress_datetime_compare (start_datetime (dates state)) (end_datetime (dates state)) < 0
      then state\<lparr>dates := (dates state)\<lparr>end_datetime := start_datetime (dates state),
                                          end_unused := start_unused (dates state)\<rparr>,
                 dates_changed := True\<rparr>
      else state)"

text \<open>
  The order the check establishes: the end of the range is not before its start, that is,
  the comparison of start with end is not negative.
\<close>

definition end_not_before_start :: "progress_state_t \<Rightarrow> bool" where
  "end_not_before_start s =
     (0 \<le> progress_datetime_compare (start_datetime (dates s)) (end_datetime (dates s)))"

text \<open>
  \<open>_progress_face_get_active_datetime\<close> returns a pointer into the state; the model
  reads through it with the first function and writes through it with the second.
\<close>

definition progress_face_get_active_datetime :: "progress_state_t \<Rightarrow> progress_datetime_t" where
  "progress_face_get_active_datetime state =
     (if current_page state = PROGRESS_PAGE_START then start_datetime (dates state)
      else end_datetime (dates state))"

definition progress_face_set_active_datetime ::
  "progress_state_t \<Rightarrow> progress_datetime_t \<Rightarrow> progress_state_t" where
  "progress_face_set_active_datetime state dt =
     (if current_page state = PROGRESS_PAGE_START
      then state\<lparr>dates := (dates state)\<lparr>start_datetime := dt\<rparr>\<rparr>
      else state\<lparr>dates := (dates state)\<lparr>end_datetime := dt\<rparr>\<rparr>)"

text \<open>
  The \<open>switch\<close> of \<open>_progress_face_increment_current\<close>. Each store truncates to the
  width of the bit-field. \<open>day % watch_utility_days_in_month(...)\<close> divides by zero when
  the host function returns 0; that undefined behaviour is the result \<open>None\<close>.
\<close>

definition progress_increment_field ::
  "host_t \<Rightarrow> progress_setting_subpage_t \<Rightarrow> progress_datetime_t \<Rightarrow> progress_datetime_t option" where
  "progress_increment_field host subpage active_dt =
     (case subpage of
        PROGRESS_SUBPAGE_YEAR \<Rightarrow>
          (let y1 = year active_dt + 1;
               current_year = host_current_year host
           in Some (active_dt\<lparr>year :=
                (if uint y1 > uint current_year + 100
                 then word_of_int (uint current_year - 100) else y1)\<rparr>))
      | PROGRESS_SUBPAGE_MONTH \<Rightarrow>
          Some (active_dt\<lparr>month := word_of_int (uint (month active_dt) mod 12 + 1)\<rparr>)
      | PROGRESS_SUBPAGE_DAY \<Rightarrow>
          (let n = int (days_in_month host (unat (month active_dt)) (unat (year active_dt)))
           in if n = 0 then None
              else Some (active_dt\<lparr>day := word_of_int (uint (day active_dt) mod n + 1)\<rparr>))
      | PROGRESS_SUBPAGE_HOUR \<Rightarrow>
          Some (active_dt\<lparr>hour := word_of_int ((uint (hour active_dt) + 1) mod 24)\<rparr>)
      | PROGRESS_SUBPAGE_MINUTE \<Rightarrow>
          Some (active_dt\<lparr>minute := word_of_int ((uint (minute active_dt) + 1) mod 60)\<rparr>))"

text \<open>
  \<open>_progress_face_increment_current\<close>: set \<open>dates_changed\<close>, increment the field under
  the cursor of the active date, and run the end-after-start check only when the page is
  \<open>PROGRESS_PAGE_END\<close>.
\<close>

definition progress_face_increment_current ::
  "host_t \<Rightarrow> progress_state_t \<Rightarrow> progress_state_t option" where
  "progress_face_increment_current host state0 =
     (let state = state0\<lparr>dates_changed := True\<rparr>
      in case progress_increment_field host (current_subpage state)
                (progress_face_get_active_datetime state) of
           None \<Rightarrow> None
         | Some dt \<Rightarrow>
             (let state' = progress_face_set_active_datetime state dt
              in Some (if current_page state' = PROGRESS_PAGE_END
                       then progress_face_validate_end_datetime state' else state')))"

section \<open>Progress calculation\<close>

text \<open>
  The arithmetic of \<open>_progress_face_update_display\<close> on the three minute counts, all
  \<open>uint64_t\<close>. The result carries the branch that produced it next to the value of
  \<open>percentage_x10000\<close>.
\<close>

datatype progress_branch_t =
  BRANCH_NOT_STARTED | BRANCH_FINISHED | BRANCH_DIVIDE | BRANCH_ZERO_DURATION

definition progress_compute :: "64 word \<Rightarrow> 64 word \<Rightarrow> 64 word \<Rightarrow> progress_branch_t \<times> 64 word" where
  "progress_compute start_minutes end_minutes current_minutes =
     (if current_minutes \<le> start_minutes then (BRANCH_NOT_STARTED, 0)
      else if current_minutes \<ge> end_minutes then (BRANCH_FINISHED, 1000000)
      else (let progress = (current_minutes - start_minutes) * 1000000;
                duration = end_minutes - start_minutes
            in if duration > 0 then (BRANCH_DIVIDE, progress div duration)
               else (BRANCH_ZERO_DURATION, 1000000)))"

definition progress_percentage_x10000 :: "progress_dates_t \<Rightarrow> progress_datetime_t \<Rightarrow> 64 word" where
  "progress_percentage_x10000 d current_dt =
     snd (progress_compute (progress_datetime_to_minutes (start_datetime d))
            (progress_datetime_to_minutes (end_datetime d))
            (progress_datetime_to_minutes current_dt))"

text \<open>The conversion of the host clock into \<open>current_dt\<close>, field by field.\<close>

definition progress_current_dt :: "host_t \<Rightarrow> progress_datetime_t" where
  "progress_current_dt host =
     \<lparr>year = word_of_nat (unit_year (local_date_time host) + WATCH_RTC_REFERENCE_YEAR host),
      month = word_of_nat (unit_month (local_date_time host)),
      day = word_of_nat (unit_day (local_date_time host)),
      hour = word_of_nat (unit_hour (local_date_time host)),
      minute = word_of_nat (unit_minute (local_date_time host))\<rparr>"

text \<open>
  \<open>_progress_face_update_display\<close>: the value it renders. The calls into the display
  driver only write segments and are left out, here and in the event handler.
\<close>

definition progress_face_update_display :: "host_t \<Rightarrow> progress_state_t \<Rightarrow> 64 word" where
  "progress_face_update_display host state =
     progress_percentage_x10000 (dates state) (progress_current_dt host)"

text \<open>
  The reference of the specification on exact integers: 0 up to the start, 1,000,000 from
  the end on, the floor of the scaled quotient in between.
\<close>

definition computeProgressFixedPoint :: "int \<Rightarrow> int \<Rightarrow> int \<Rightarrow> int" where
  "computeProgressFixedPoint start_min end_min now_min =
     (if now_min \<le> start_min then 0
      else if now_min \<ge> end_min then 1000000
      else ((now_min - start_min) * 1000000) div (end_min - start_min))"

section \<open>Persistence\<close>

text \<open>\<open>sprintf(filename, "prog%03d.u64", state->face_index)\<close> for an index of 0 to 255.\<close>

definition dec_digit :: "nat \<Rightarrow> char" where
  "dec_digit n = ''0123456789'' ! (n mod 10)"

definition progress_filename :: "8 word \<Rightarrow> string" where
  "progress_filename idx =
     ''prog'' @ [dec_digit (unat idx div 100), dec_digit (unat idx div 10), dec_digit (unat idx)]
     @ ''.u64''"

text \<open>
  \<open>_progress_face_load_dates\<close>: the stored range on a successful read of an existing
  file, the default range of the current year otherwise; the flag is the return value.
  The default branch stores into the ten bit-fields one by one, so the bits of the state
  that belong to no field stay as they are.
\<close>

definition progress_face_load_dates ::
  "host_t \<Rightarrow> filesystem_t \<Rightarrow> progress_state_t \<Rightarrow> progress_state_t \<times> bool" where
  "progress_face_load_dates host fs state =
     (let filename = progress_filename (face_index state)
      in case (if filesystem_file_exists fs filename then filesystem_read_file fs filename
               else None) of
           Some d \<Rightarrow> (state\<lparr>dates := d\<rparr>, True)
         | None \<Rightarrow>
             (let current_year = host_current_year host
              in (state\<lparr>dates := (dates state)
                    \<lparr>start_datetime :=
                        \<lparr>year = ucast current_year, month = 1, day = 1, hour = 0, minute = 0\<rparr>,
                     end_datetime :=
                        \<lparr>year = ucast current_year, month = 12, day = 31, hour = 23,
                         minute = 59\<rparr>\<rparr>\<rparr>,
                  False)))"

text \<open>
  \<open>_progress_face_persist_dates\<close>: \<open>needs_write\<close> stays true unless the file exists, the
  read succeeds and \<open>memcmp\<close> over \<open>sizeof(progress_dates_t)\<close> finds the stored bytes equal
  to the bytes of the range in memory. Equality of two \<open>progress_dates_t\<close> records is that
  comparison: it covers the ten field values and the bits that belong to no field.
\<close>

definition progress_face_persist_dates ::
  "progress_state_t \<Rightarrow> filesystem_t \<Rightarrow> progress_state_t \<times> filesystem_t" where
  "progress_face_persist_dates state fs =
     (let filename = progress_filename (face_index state);
          needs_write =
            (if filesystem_file_exists fs filename
             then (case filesystem_read_file fs filename of
                     Some old_dates \<Rightarrow> old_dates \<noteq> dates state
                   | None \<Rightarrow> True)
             else True);
          fs' = (if needs_write then filesystem_write_file fs filename (dates state) else fs)
      in (state\<lparr>dates_changed := False\<rparr>, fs'))"

section \<open>The face: setup, activation, event handler and resignation\<close>

text \<open>\<open>_progress_face_abort_quick_cycle\<close>.\<close>

definition progress_face_abort_quick_cycle ::
  "progress_state_t \<times> movement_t \<Rightarrow> progress_state_t \<times> movement_t" where
  "progress_face_abort_quick_cycle sm =
     (if quick_cycle (fst sm)
      then ((fst sm)\<lparr>quick_cycle := False\<rparr>, (snd sm)\<lparr>tick_frequency := 4\<rparr>)
      else sm)"

text \<open>
  \<open>progress_face_setup\<close>. The context pointer is \<open>None\<close> for \<open>NULL\<close>; the static counter
  \<open>progress_instances\<close> is passed in and returned. A fresh context is zeroed by
  \<open>memset\<close>, takes the next instance index (truncated to \<open>uint8_t\<close>) and loads its dates.
  The argument \<open>watch_face_index\<close> is cast to \<open>void\<close> in the source and is not a parameter
  here; an existing context is left as it is.
\<close>

definition progress_state_zero :: progress_state_t where
  "progress_state_zero =
     \<lparr>current_page = PROGRESS_PAGE_DISPLAY, current_subpage = PROGRESS_SUBPAGE_YEAR,
      face_index = 0,
      dates = \<lparr>start_datetime = \<lparr>year = 0, month = 0, day = 0, hour = 0, minute = 0\<rparr>,
               end_datetime = \<lparr>year = 0, month = 0, day = 0, hour = 0, minute = 0\<rparr>,
               start_unused = 0, end_unused = 0\<rparr>,
      dates_changed = False, quick_cycle = False\<rparr>"

definition progress_face_setup ::
  "host_t \<Rightarrow> filesystem_t \<Rightarrow> progress_state_t option \<times> int \<Rightarrow> progress_state_t option \<times> int" where
  "progress_face_setup host fs ctx =
     (case fst ctx of
        Some state \<Rightarrow> ctx
      | None \<Rightarrow>
          (let progress_instances = snd ctx;
               state = progress_state_zero\<lparr>face_index := word_of_int progress_instances\<rparr>;
               loaded = progress_face_load_dates host fs state;
               dates_initialized = snd loaded;
               state' =
                 (if \<not> dates_initialized
                  then (fst loaded)\<lparr>current_page := PROGRESS_PAGE_START,
                                     current_subpage := PROGRESS_SUBPAGE_YEAR\<rparr>
                  else (fst loaded)\<lparr>current_page := PROGRESS_PAGE_DISPLAY,
                                     current_subpage := PROGRESS_SUBPAGE_YEAR\<rparr>)
           in (Some (state'\<lparr>dates_changed := False, quick_cycle := False\<rparr>),
               progress_instances + 1)))"

text \<open>\<open>progress_face_activate\<close>: one tick per second on the display page, four otherwise.\<close>

definition progress_face_activate :: "progress_state_t \<Rightarrow> movement_t \<Rightarrow> movement_t" where
  "progress_face_activate state mv =
     (if current_page state = PROGRESS_PAGE_DISPLAY then mv\<lparr>tick_frequency := 1\<rparr>
      else mv\<lparr>tick_frequency := 4\<rparr>)"

text \<open>
  The events \<open>progress_face_loop\<close> distinguishes; every other event type goes to
  \<open>movement_default_loop_handler\<close>, which does not touch the state of the face.
\<close>

datatype movement_event_type_t =
  EVENT_ACTIVATE | EVENT_LOW_ENERGY_UPDATE | EVENT_TICK
  | EVENT_LIGHT_BUTTON_DOWN | EVENT_LIGHT_BUTTON_UP
  | EVENT_ALARM_BUTTON_UP | EVENT_ALARM_LONG_PRESS | EVENT_ALARM_LONG_UP
  | EVENT_TIMEOUT | EVENT_OTHER

text \<open>\<open>(state->current_subpage + 1) % 5\<close>.\<close>

fun next_subpage :: "progress_setting_subpage_t \<Rightarrow> progress_setting_subpage_t" where
  "next_subpage PROGRESS_SUBPAGE_YEAR = PROGRESS_SUBPAGE_MONTH"
| "next_subpage PROGRESS_SUBPAGE_MONTH = PROGRESS_SUBPAGE_DAY"
| "next_subpage PROGRESS_SUBPAGE_DAY = PROGRESS_SUBPAGE_HOUR"
| "next_subpage PROGRESS_SUBPAGE_HOUR = PROGRESS_SUBPAGE_MINUTE"
| "next_subpage PROGRESS_SUBPAGE_MINUTE = PROGRESS_SUBPAGE_YEAR"

text \<open>
  \<open>progress_face_loop\<close>, one equation per \<open>case\<close> of the outer \<open>switch\<close>. The result is
  \<open>None\<close> when a field increment divides by zero.
\<close>

fun progress_face_loop ::
  "host_t \<Rightarrow> movement_event_type_t \<Rightarrow> progress_state_t \<times> movement_t
   \<Rightarrow> (progress_state_t \<times> movement_t) option" where
  "progress_face_loop host EVENT_ACTIVATE (state, mv) = Some (state, mv)"
| "progress_face_loop host EVENT_LOW_ENERGY_UPDATE (state, mv) =
     (if quick_cycle state
      then (if btn_alarm host
            then map_option (\<lambda>s. (s, mv)) (progress_face_increment_current host state)
            else Some (progress_face_abort_quick_cycle (state, mv)))
      else Some (state, mv))"
| "progress_face_loop host EVENT_TICK (state, mv) =
     (if quick_cycle state
      then (if btn_alarm host
            then map_option (\<lambda>s. (s, mv)) (progress_face_increment_current host state)
            else Some (progress_face_abort_quick_cycle (state, mv)))
      else Some (state, mv))"
| "progress_face_loop host EVENT_LIGHT_BUTTON_DOWN (state, mv) = Some (state, mv)"
| "progress_face_loop host EVENT_LIGHT_BUTTON_UP (state, mv) =
     (if current_page state = PROGRESS_PAGE_START \<or> current_page state = PROGRESS_PAGE_END
      then (let state1 = state\<lparr>current_subpage := next_subpage (current_subpage state)\<rparr>
            in if current_subpage state1 = PROGRESS_SUBPAGE_YEAR
               then (if current_page state1 = PROGRESS_PAGE_START
                     then Some (progress_face_validate_end_datetime
                                  (state1\<lparr>current_page := PROGRESS_PAGE_END\<rparr>), mv)
                     else (let persisted =
                                 progress_face_persist_dates
                                   (state1\<lparr>current_page := PROGRESS_PAGE_DISPLAY\<rparr>)
                                   (filesystem mv)
                           in Some (fst persisted,
                                    mv\<lparr>filesystem := snd persisted, tick_frequency := 1\<rparr>)))
               else Some (state1, mv))
      else Some (state, mv))"
| "progress_face_loop host EVENT_ALARM_BUTTON_UP (state, mv) =
     (if current_page state = PROGRESS_PAGE_START \<or> current_page state = PROGRESS_PAGE_END
      then (let aborted = progress_face_abort_quick_cycle (state, mv)
            in map_option (\<lambda>s. (s, snd aborted))
                 (progress_face_increment_current host (fst aborted)))
      else Some (state, mv))"
| "progress_face_loop host EVENT_ALARM_LONG_PRESS (state, mv) =
     (if current_page state = PROGRESS_PAGE_DISPLAY
      then Some (state\<lparr>current_page := PROGRESS_PAGE_START,
                       current_subpage := PROGRESS_SUBPAGE_YEAR\<rparr>,
                 mv\<lparr>tick_frequency := 4\<rparr>)
      else Some (state\<lparr>quick_cycle := True\<rparr>, mv\<lparr>tick_frequency := 8\<rparr>))"
| "progress_face_loop host EVENT_ALARM_LONG_UP (state, mv) =
     Some (progress_face_abort_quick_cycle (state, mv))"
| "progress_face_loop host EVENT_TIMEOUT (state, mv) =
     Some (progress_face_abort_quick_cycle (state, mv))"
| "progress_face_loop host EVENT_OTHER (state, mv) = Some (state, mv)"

text \<open>\<open>progress_face_resign\<close>: store the dates if they changed.\<close>

definition progress_face_resign :: "progress_state_t \<times> movement_t \<Rightarrow> progress_state_t \<times> movement_t" where
  "progress_face_resign sm =
     (if dates_changed (fst sm)
      then (let persisted = progress_face_persist_dates (fst sm) (filesystem (snd sm))
            in (fst persisted, (snd sm)\<lparr>filesystem := snd persisted\<rparr>))
      else sm)"

text \<open>
  A run of the event handler: the host delivers one event at a time, each with its own
  reading of the clock and the alarm button; a division by zero ends the run.
\<close>

fun progress_face_run ::
  "(host_t \<times> movement_event_type_t) list \<Rightarrow> progress_state_t \<times> movement_t
   \<Rightarrow> (progress_state_t \<times> movement_t) option" where
  "progress_face_run [] sm = Some sm"
| "progress_face_run (he # rest) sm =
     (case progress_face_loop (fst he) (snd he) sm of
        None \<Rightarrow> None
      | Some sm' \<Rightarrow> progress_face_run rest sm')"

section \<open>Auxiliary calendar functions and example inputs\<close>

text \<open>
  Closed forms used in the proofs about \<open>julian_day\<close>: the number of days of \<open>n\<close>
  Gregorian years, the day number for integer year, month and day, the length of a year
  and the number of days of a year that precede a month.
\<close>

definition gregorian_days :: "int \<Rightarrow> int" where
  "gregorian_days n = 365 * n + n div 4 - n div 100 + n div 400"

definition day_number :: "int \<Rightarrow> int \<Rightarrow> int \<Rightarrow> int" where
  "day_number y m d =
     (if m \<le> 2 then gregorian_days (y + 4799) + (367 * (m + 10)) div 12
      else gregorian_days (y + 4800) + (367 * (m - 2)) div 12) + d - 32075"

definition year_length :: "int \<Rightarrow> int" where
  "year_length y = (if is_leap_year y then 366 else 365)"

definition days_before :: "int \<Rightarrow> int \<Rightarrow> int" where
  "days_before m y =
     (if m \<le> 2 then 31 * (m - 1)
      else (367 * (m - 2)) div 12 + 29 + (if is_leap_year y then 1 else 0))"

text \<open>
  Concrete inputs for the examples below: a host whose clock reads 2 July 2025, 12:00
  (year 5 after the reference year 2020), a Gregorian month-length function for it, and
  a few dates and states.
\<close>

definition example_host :: host_t where
  "example_host =
     \<lparr>local_date_time = \<lparr>unit_year = 5, unit_month = 7, unit_day = 2, unit_hour = 12,
                          unit_minute = 0, unit_second = 0\<rparr>,
      WATCH_RTC_REFERENCE_YEAR = 2020,
      btn_alarm = False,
      days_in_month = (\<lambda>m y. nat (month_length (int m) (int y)))\<rparr>"

definition date_2024_12_31_2359 :: progress_datetime_t where
  "date_2024_12_31_2359 = \<lparr>year = 2024, month = 12, day = 31, hour = 23, minute = 59\<rparr>"

definition date_2025_01_01_0000 :: progress_datetime_t where
  "date_2025_01_01_0000 = \<lparr>year = 2025, month = 1, day = 1, hour = 0, minute = 0\<rparr>"

definition date_2025_07_02_1200 :: progress_datetime_t where
  "date_2025_07_02_1200 = \<lparr>year = 2025, month = 7, day = 2, hour = 12, minute = 0\<rparr>"

definition date_2025_12_31_2359 :: progress_datetime_t where
  "date_2025_12_31_2359 = \<lparr>year = 2025, month = 12, day = 31, hour = 23, minute = 59\<rparr>"

definition date_2026_01_01_0000 :: progress_datetime_t where
  "date_2026_01_01_0000 = \<lparr>year = 2026, month = 1, day = 1, hour = 0, minute = 0\<rparr>"

definition date_2125_12_31_2359 :: progress_datetime_t where
  "date_2125_12_31_2359 = \<lparr>year = 2125, month = 12, day = 31, hour = 23, minute = 59\<rparr>"

definition date_4095_01_01_0000 :: progress_datetime_t where
  "date_4095_01_01_0000 = \<lparr>year = 4095, month = 1, day = 1, hour = 0, minute = 0\<rparr>"

definition range_2025 :: progress_dates_t where
  "range_2025 =
     \<lparr>start_datetime = date_2025_01_01_0000, end_datetime = date_2025_12_31_2359,
      start_unused = 0, end_unused = 0\<rparr>"

definition range_empty :: progress_dates_t where
  "range_empty =
     \<lparr>start_datetime = date_2025_07_02_1200, end_datetime = date_2025_07_02_1200,
      start_unused = 0, end_unused = 0\<rparr>"

definition range_to_2125 :: progress_dates_t where
  "range_to_2125 =
     \<lparr>start_datetime = date_2025_01_01_0000, end_datetime = date_2125_12_31_2359,
      start_unused = 0, end_unused = 0\<rparr>"

definition example_state ::
  "progress_page_t \<Rightarrow> progress_setting_subpage_t \<Rightarrow> progress_dates_t \<Rightarrow> bool \<Rightarrow> progress_state_t" where
  "example_state page subpage d quick =
     \<lparr>current_page = page, current_subpage = subpage, face_index = 0, dates = d,
      dates_changed = False, quick_cycle = quick\<rparr>"

definition empty_filesystem :: filesystem_t where
  "empty_filesystem =
     \<lparr>fs_files = Map.empty, fs_read_ok = (\<lambda>f. True), fs_write_ok = (\<lambda>f. True), fs_writes = []\<rparr>"

definition filesystem_with_2025 :: filesystem_t where
  "filesystem_with_2025 =
     \<lparr>fs_files = [''prog000.u64'' \<mapsto> range_2025], fs_read_ok = (\<lambda>f. True),
      fs_write_ok = (\<lambda>f. True), fs_writes = []\<rparr>"

definition filesystem_with_2025_other_bytes :: filesystem_t where
  "filesystem_with_2025_other_bytes =
     \<lparr>fs_files = [''prog000.u64'' \<mapsto> range_2025\<lparr>end_unused := 1\<rparr>],
      fs_read_ok = (\<lambda>f. True), fs_write_ok = (\<lambda>f. True), fs_writes = []\<rparr>"

definition example_host_alarm_held :: host_t where
  "example_host_alarm_held = example_host\<lparr>btn_alarm := True\<rparr>"

definition example_movement :: "filesystem_t \<Rightarrow> movement_t" where
  "example_movement fs = \<lparr>tick_frequency = 8, filesystem = fs\<rparr>"

section \<open>Calendar arithmetic: proofs\<close>

lemma c_div_nonneg: "0 \<le> a \<Longrightarrow> 0 < b \<Longrightarrow> c_div a b = a div b"
  by (simp add: c_div_def)

lemma c_div_month: "0 \<le> m \<Longrightarrow> m \<le> 15 \<Longrightarrow> c_div (m - 14) 12 = (if m \<le> 2 then -1 else 0)"
  unfolding c_div_def by (auto simp: abs_if)

lemma year_terms: "(1461 * n) div 4 - (3 * ((n + 100) div 100)) div 4 = gregorian_days n" for n :: int
proof -
  have a: "(1461 * n) div 4 = 365 * n + n div 4" by arith
  have b: "(n + 100) div 100 = n div 100 + 1" by simp
  have c: "(3 * (c + 1)) div 4 = c + 1 - (c + 4) div 4" for c :: int by arith
  have d: "(n div 100 + 4) div 4 = n div 400 + 1"
    by (simp add: zdiv_zmult2_eq)
  show ?thesis unfolding a b c d gregorian_days_def by simp
qed

lemma julian_day_expr:
  assumes "0 \<le> y" "0 \<le> m" "m \<le> 15"
  shows "c_div (1461 * (y + 4800 + c_div (m - 14) 12)) 4
     + c_div (367 * (m - 2 - 12 * c_div (m - 14) 12)) 12
     - c_div (3 * c_div (y + 4900 + c_div (m - 14) 12) 100) 4
     + d - 32075 = day_number y m d"
proof -
  define a :: int where "a = (if m \<le> 2 then - 1 else 0)"
  define n where "n = y + 4800 + a"
  have a: "c_div (m - 14) 12 = a" unfolding a_def by (rule c_div_month[OF assms(2,3)])
  have n0: "0 \<le> n" using assms(1) by (simp add: n_def a_def)
  have n1: "y + 4900 + a = n + 100" by (simp add: n_def)
  have q0: "0 \<le> (n + 100) div 100" using n0 by (simp add: pos_imp_zdiv_nonneg_iff)
  have m0: "0 \<le> 367 * (m - 2 - 12 * a)" using assms(2) by (simp add: a_def)
  have t1: "c_div (1461 * n) 4 = (1461 * n) div 4" using n0 by (simp add: c_div_nonneg)
  have t2: "c_div (367 * (m - 2 - 12 * a)) 12 = (367 * (m - 2 - 12 * a)) div 12"
    using m0 by (rule c_div_nonneg) simp
  have t3: "c_div (n + 100) 100 = (n + 100) div 100" using n0 by (simp add: c_div_nonneg)
  have t4: "c_div (3 * ((n + 100) div 100)) 4 = (3 * ((n + 100) div 100)) div 4"
    using q0 by (simp add: c_div_nonneg)
  have "c_div (1461 * n) 4 + c_div (367 * (m - 2 - 12 * a)) 12
     - c_div (3 * c_div (n + 100) 100) 4 + d - 32075
     = gregorian_days n + (367 * (m - 2 - 12 * a)) div 12 + d - 32075"
    unfolding t1 t2 t3 t4 using year_terms[of n] by linarith
  also have "\<dots> = day_number y m d"
  proof (cases "m \<le> 2")
    case True
    then have "a = - 1" by (simp add: a_def)
    then have e: "n = y + 4799" "m - 2 - 12 * a = m + 10" by (simp_all add: n_def)
    show ?thesis unfolding day_number_def e by (simp only: True if_True)
  next
    case False
    then have "a = 0" by (simp add: a_def)
    then have e: "n = y + 4800" "m - 2 - 12 * a = m - 2" by (simp_all add: n_def)
    show ?thesis unfolding day_number_def e by (simp only: False if_False)
  qed
  finally show ?thesis unfolding a n1 n_def[symmetric] .
qed

lemma julian_day_day_number: "julian_day dt = day_number (uint (year dt)) (uint (month dt)) (uint (day dt))"
proof -
  have m: "0 \<le> uint (month dt)" "uint (month dt) \<le> 15"
    using uint_bounded[of "month dt"] by simp_all
  show ?thesis unfolding julian_day_def by (rule julian_day_expr[OF _ m]) simp
qed

lemma div_succ:
  fixes n k :: int
  assumes "0 < k"
  shows "(n + 1) div k = n div k + (if k dvd (n + 1) then 1 else 0)"
proof (cases "n mod k + 1 = k")
  case True
  have "n + 1 = k * (n div k) + (n mod k + 1)" by simp
  also have "\<dots> = k * (n div k + 1) + 0" unfolding True by (simp add: algebra_simps)
  finally have e: "n + 1 = k * (n div k + 1) + 0" .
  have "(n + 1) div k = n div k + 1"
    by (rule int_div_pos_eq[OF e]) (use assms in simp_all)
  moreover have "(n + 1) mod k = 0"
    by (rule int_mod_pos_eq[OF e]) (use assms in simp_all)
  ultimately show ?thesis by (simp add: mod_eq_0_iff_dvd)
next
  case False
  have "n mod k < k" using assms by simp
  with False have lt: "n mod k + 1 < k" by linarith
  have nn: "0 \<le> n mod k + 1" using assms by (simp add: add_nonneg_nonneg)
  have e: "n + 1 = k * (n div k) + (n mod k + 1)" by simp
  have "(n + 1) div k = n div k"
    by (rule int_div_pos_eq[OF e nn lt])
  moreover have "(n + 1) mod k = n mod k + 1"
    by (rule int_mod_pos_eq[OF e nn lt])
  moreover have "0 < n mod k + 1" using assms by (simp add: add_nonneg_pos)
  ultimately show ?thesis by (simp add: dvd_eq_mod_eq_0)
qed

lemma gregorian_days_succ: "gregorian_days (n + 1) = gregorian_days n + (if is_leap_year (n + 1) then 366 else 365)"
proof -
  have d1: "4 dvd x" if "100 dvd x" for x :: int
    by (rule dvd_trans[OF _ that]) simp
  have d2: "100 dvd x" if "400 dvd x" for x :: int
    by (rule dvd_trans[OF _ that]) simp
  have s4: "(n + 1) div 4 = n div 4 + (if 4 dvd (n + 1) then 1 else 0)" by (rule div_succ) simp
  have s100: "(n + 1) div 100 = n div 100 + (if 100 dvd (n + 1) then 1 else 0)" by (rule div_succ) simp
  have s400: "(n + 1) div 400 = n div 400 + (if 400 dvd (n + 1) then 1 else 0)" by (rule div_succ) simp
  consider (c400) "400 dvd (n + 1)" "100 dvd (n + 1)" "4 dvd (n + 1)"
    | (c100) "\<not> 400 dvd (n + 1)" "100 dvd (n + 1)" "4 dvd (n + 1)"
    | (c4) "\<not> 400 dvd (n + 1)" "\<not> 100 dvd (n + 1)" "4 dvd (n + 1)"
    | (c1) "\<not> 400 dvd (n + 1)" "\<not> 100 dvd (n + 1)" "\<not> 4 dvd (n + 1)"
    using d1[of "n + 1"] d2[of "n + 1"] by blast
  then show ?thesis
  proof cases
    case c400
    show ?thesis unfolding gregorian_days_def is_leap_year_def s4 s100 s400 mod_eq_0_iff_dvd
      by (simp only: c400 if_True simp_thms) simp
  next
    case c100
    show ?thesis unfolding gregorian_days_def is_leap_year_def s4 s100 s400 mod_eq_0_iff_dvd
      by (simp only: c100 if_True if_False simp_thms) simp
  next
    case c4
    show ?thesis unfolding gregorian_days_def is_leap_year_def s4 s100 s400 mod_eq_0_iff_dvd
      by (simp only: c4 if_True if_False simp_thms) simp
  next
    case c1
    show ?thesis unfolding gregorian_days_def is_leap_year_def s4 s100 s400 mod_eq_0_iff_dvd
      by (simp only: c1 if_True if_False simp_thms) simp
  qed
qed

lemma is_leap_year_shift: "is_leap_year (y + 4800) = is_leap_year y"
proof -
  have a: "(y + 4800) mod 4 = y mod 4" using mod_mult_self2[of y 4 1200] by simp
  have b: "(y + 4800) mod 100 = y mod 100" using mod_mult_self2[of y 100 48] by simp
  have c: "(y + 4800) mod 400 = y mod 400" using mod_mult_self2[of y 400 12] by simp
  show ?thesis unfolding is_leap_year_def a b c ..
qed

lemma gregorian_days_4800: "gregorian_days (y + 4800) = gregorian_days (y + 4799) + year_length y"
proof -
  have e: "y + 4799 + 1 = y + 4800" by simp
  from gregorian_days_succ[of "y + 4799"] show ?thesis
    unfolding e year_length_def is_leap_year_shift .
qed

lemma day_number_jan1: "day_number y 1 1 = gregorian_days (y + 4799) - 31738"
  by (simp add: day_number_def)

lemma day_number_year_succ: "day_number (y + 1) 1 1 = day_number y 1 1 + year_length y"
proof -
  have e: "y + 1 + 4799 = y + 4800" by simp
  show ?thesis unfolding day_number_jan1 e gregorian_days_4800 by simp
qed

lemma day_number_decomp:
  assumes "1 \<le> m"
  shows "day_number y m d = day_number y 1 1 + days_before m y + (d - 1)"
proof (cases "m \<le> 2")
  case True
  with assms have "m = 1 \<or> m = 2" by linarith
  then show ?thesis by (auto simp: day_number_def days_before_def)
next
  case False
  then show ?thesis
    by (simp add: day_number_def days_before_def gregorian_days_4800 year_length_def)
qed

lemma month_cases:
  assumes "1 \<le> m" "m \<le> (11::int)"
  shows "m = 1 \<or> m = 2 \<or> m = 3 \<or> m = 4 \<or> m = 5 \<or> m = 6 \<or> m = 7 \<or> m = 8 \<or> m = 9
    \<or> m = 10 \<or> m = 11"
  using assms by presburger

lemma days_before_succ:
  assumes "1 \<le> m" "m \<le> 11"
  shows "days_before (m + 1) y = days_before m y + month_length m y"
  using month_cases[OF assms]
  by (elim disjE) (simp_all add: days_before_def month_length_def)

lemma days_before_mono:
  assumes "1 \<le> m" "m \<le> m'"
  shows "days_before m y \<le> days_before m' y"
proof -
  have "(367 * (m - 2)) div 12 \<le> (367 * (m' - 2)) div 12"
    by (rule zdiv_mono1) (use assms in simp_all)
  moreover have "30 \<le> (367 * (m' - 2)) div 12" if "3 \<le> m'"
  proof -
    have "(367 * (3 - 2)) div 12 \<le> (367 * (m' - 2)) div (12::int)"
      by (rule zdiv_mono1) (use that in simp_all)
    then show ?thesis by simp
  qed
  ultimately show ?thesis
    using assms unfolding days_before_def by (auto split: if_splits)
qed

lemma days_before_end:
  assumes "1 \<le> m" "m \<le> 12"
  shows "days_before m y + month_length m y \<le> year_length y"
proof (cases "m = 12")
  case True
  then show ?thesis by (simp add: days_before_def month_length_def year_length_def)
next
  case False
  with assms have m: "m \<le> 11" by simp
  have "days_before (m + 1) y \<le> days_before 12 y"
    by (rule days_before_mono) (use assms m in simp_all)
  also have "\<dots> \<le> year_length y" by (simp add: days_before_def year_length_def)
  finally show ?thesis using days_before_succ[OF assms(1) m, of y] by simp
qed

lemma gregorian_days_mono: "gregorian_days n \<le> gregorian_days (n + int k)"
proof (induction k)
  case 0
  then show ?case by simp
next
  case (Suc k)
  have e: "n + int (Suc k) = n + int k + 1" by simp
  show ?case unfolding e gregorian_days_succ using Suc by simp
qed

lemma day_number_year_mono:
  assumes "y \<le> y'"
  shows "day_number y 1 1 \<le> day_number y' 1 1"
proof -
  define k where "k = nat (y' - y)"
  have e: "y' + 4799 = y + 4799 + int k" using assms by (simp add: k_def)
  show ?thesis unfolding day_number_jan1 e using gregorian_days_mono[of "y + 4799" k] by simp
qed

lemma to_minutes_of_int: "progress_datetime_to_minutes dt = word_of_int (linearMinutes dt)"
  by (simp add: progress_datetime_to_minutes_def linearMinutes_def)

lemma gregorian_days_lower: "4799 \<le> n \<Longrightarrow> 1752798 \<le> gregorian_days n"
proof -
  assume a: "4799 \<le> n"
  define k where "k = nat (n - 4799)"
  have e: "n = 4799 + int k" using a by (simp add: k_def)
  have "gregorian_days 4799 = 1752798" by (simp add: gregorian_days_def)
  then show ?thesis using gregorian_days_mono[of 4799 k] unfolding e by simp
qed

lemma gregorian_days_upper: "n \<le> 8895 \<Longrightarrow> gregorian_days n \<le> 3248832"
proof -
  assume a: "n \<le> 8895"
  define k where "k = nat (8895 - n)"
  have e: "8895 = n + int k" using a by (simp add: k_def)
  have "gregorian_days 8895 = 3248832" by (simp add: gregorian_days_def)
  then show ?thesis using gregorian_days_mono[of n k] unfolding e[symmetric] by simp
qed

lemma day_number_bounds:
  assumes "0 \<le> y" "y \<le> 4095" "0 \<le> m" "m \<le> 15" "0 \<le> d" "d \<le> 31"
  shows "1720000 \<le> day_number y m d \<and> day_number y m d \<le> 3217185"
proof (cases "m \<le> 2")
  case True
  have "0 \<le> (367 * (m + 10)) div 12" using assms by (simp add: pos_imp_zdiv_nonneg_iff)
  moreover have "(367 * (m + 10)) div 12 \<le> (367 * (2 + 10)) div 12"
    by (rule zdiv_mono1) (use True in simp_all)
  ultimately show ?thesis
    using gregorian_days_lower[of "y + 4799"] gregorian_days_upper[of "y + 4799"] assms True
    by (simp add: day_number_def)
next
  case False
  have "0 \<le> (367 * (m - 2)) div 12" using False by (simp add: pos_imp_zdiv_nonneg_iff)
  moreover have "(367 * (m - 2)) div 12 \<le> (367 * (15 - 2)) div 12"
    by (rule zdiv_mono1) (use assms in simp_all)
  ultimately show ?thesis
    using gregorian_days_lower[of "y + 4800"] gregorian_days_upper[of "y + 4800"] assms False
    by (simp add: day_number_def)
qed

lemma days_before_nonneg: "1 \<le> m \<Longrightarrow> 0 \<le> days_before m y"
  using days_before_mono[of 1 m y] by (simp add: days_before_def)

lemma day_number_less:
  assumes v: "1 \<le> m" "m \<le> 12" "1 \<le> d" "d \<le> month_length m y"
    and v': "1 \<le> m'" "m' \<le> 12" "1 \<le> d'" "d' \<le> month_length m' y'"
    and lt: "y < y' \<or> (y = y' \<and> (m < m' \<or> (m = m' \<and> d < d')))"
  shows "day_number y m d < day_number y' m' d'"
proof -
  have a: "day_number y m d = day_number y 1 1 + days_before m y + (d - 1)" by (rule day_number_decomp[OF v(1)])
  have b: "day_number y' m' d' = day_number y' 1 1 + days_before m' y' + (d' - 1)" by (rule day_number_decomp[OF v'(1)])
  have e: "days_before m y + month_length m y \<le> year_length y" by (rule days_before_end[OF v(1,2)])
  have n: "0 \<le> days_before m' y'" by (rule days_before_nonneg[OF v'(1)])
  from lt consider (year) "y < y'" | (month) "y = y'" "m < m'" | (day) "y = y'" "m = m'" "d < d'"
    by blast
  then show ?thesis
  proof cases
    case year
    then have "day_number (y + 1) 1 1 \<le> day_number y' 1 1" by (intro day_number_year_mono) simp
    then have "day_number y 1 1 + year_length y \<le> day_number y' 1 1" by (simp only: day_number_year_succ)
    with a b e n v(4) v'(3) show ?thesis by linarith
  next
    case month
    then have m11: "m \<le> 11" using v'(2) by simp
    have "days_before (m + 1) y \<le> days_before m' y"
      by (rule days_before_mono) (use v(1) month in simp_all)
    then have "days_before m y + month_length m y \<le> days_before m' y"
      by (simp only: days_before_succ[OF v(1) m11])
    with a b v(4) v'(3) month(1) show ?thesis by simp
  next
    case day
    with a b show ?thesis by simp
  qed
qed

lemma linearMinutes_day_number:
  "linearMinutes dt = day_number (uint (year dt)) (uint (month dt)) (uint (day dt)) * 1440
     + uint (hour dt) * 60 + uint (minute dt)"
  by (simp add: linearMinutes_def julian_day_day_number)

lemma chrono_less_uint:
  "chrono_less a b =
     (uint (year a) < uint (year b)
      \<or> (uint (year a) = uint (year b) \<and> (uint (month a) < uint (month b)
      \<or> (uint (month a) = uint (month b) \<and> (uint (day a) < uint (day b)
      \<or> (uint (day a) = uint (day b) \<and> (uint (hour a) < uint (hour b)
      \<or> (uint (hour a) = uint (hour b) \<and> uint (minute a) < uint (minute b)))))))))"
  unfolding chrono_less_def word_less_def word_uint_eq_iff ..

lemma chrono_less_imp_linearMinutes_less:
  assumes "valid_datetime a" "valid_datetime b" "chrono_less a b"
  shows "linearMinutes a < linearMinutes b"
proof -
  let ?ja = "day_number (uint (year a)) (uint (month a)) (uint (day a))"
  let ?jb = "day_number (uint (year b)) (uint (month b)) (uint (day b))"
  have va: "1 \<le> uint (month a)" "uint (month a) \<le> 12" "1 \<le> uint (day a)"
    "uint (day a) \<le> month_length (uint (month a)) (uint (year a))"
    "uint (hour a) \<le> 23" "uint (minute a) \<le> 59"
    using assms(1) by (simp_all add: valid_datetime_def)
  have vb: "1 \<le> uint (month b)" "uint (month b) \<le> 12" "1 \<le> uint (day b)"
    "uint (day b) \<le> month_length (uint (month b)) (uint (year b))"
    "uint (hour b) \<le> 23" "uint (minute b) \<le> 59"
    using assms(2) by (simp_all add: valid_datetime_def)
  have nn: "0 \<le> uint (hour a)" "0 \<le> uint (minute a)" "0 \<le> uint (hour b)" "0 \<le> uint (minute b)"
    by simp_all
  from assms(3) consider
    (date) "uint (year a) < uint (year b)
      \<or> (uint (year a) = uint (year b) \<and> (uint (month a) < uint (month b)
      \<or> (uint (month a) = uint (month b) \<and> uint (day a) < uint (day b))))"
    | (time) "?ja = ?jb" "uint (hour a) < uint (hour b)
      \<or> (uint (hour a) = uint (hour b) \<and> uint (minute a) < uint (minute b))"
    unfolding chrono_less_uint by auto
  then show ?thesis
  proof cases
    case date
    have "?ja < ?jb" by (rule day_number_less[OF va(1-4) vb(1-4) date])
    then show ?thesis unfolding linearMinutes_day_number using va(5,6) vb(5,6) nn by linarith
  next
    case time
    then show ?thesis unfolding linearMinutes_day_number using va(5,6) vb(5,6) nn by linarith
  qed
qed

lemma chrono_trichotomy: "chrono_less a b \<or> a = b \<or> chrono_less b a"
proof -
  have "a = b" if "year a = year b" "month a = month b" "day a = day b" "hour a = hour b"
    "minute a = minute b"
    using that by (simp add: progress_datetime_t.equality)
  then show ?thesis unfolding chrono_less_def by (metis linorder_neqE)
qed

lemma chrono_less_iff_linearMinutes:
  assumes "valid_datetime a" "valid_datetime b"
  shows "chrono_less a b \<longleftrightarrow> linearMinutes a < linearMinutes b"
proof
  assume "chrono_less a b"
  then show "linearMinutes a < linearMinutes b"
    by (rule chrono_less_imp_linearMinutes_less[OF assms])
next
  assume lt: "linearMinutes a < linearMinutes b"
  from chrono_trichotomy[of a b] show "chrono_less a b"
  proof (elim disjE)
    assume "a = b" with lt show ?thesis by simp
  next
    assume "chrono_less b a"
    then have "linearMinutes b < linearMinutes a"
      by (rule chrono_less_imp_linearMinutes_less[OF assms(2,1)])
    with lt show ?thesis by simp
  qed
qed

lemma linearMinutes_bounds: "0 \<le> linearMinutes dt \<and> linearMinutes dt < 2 ^ 33"
proof -
  have y: "0 \<le> uint (year dt)" "uint (year dt) \<le> 4095"
    using uint_bounded[of "year dt"] by simp_all
  have m: "0 \<le> uint (month dt)" "uint (month dt) \<le> 15"
    using uint_bounded[of "month dt"] by simp_all
  have d: "0 \<le> uint (day dt)" "uint (day dt) \<le> 31"
    using uint_bounded[of "day dt"] by simp_all
  have h: "0 \<le> uint (hour dt)" "uint (hour dt) \<le> 31"
    using uint_bounded[of "hour dt"] by simp_all
  have mi: "0 \<le> uint (minute dt)" "uint (minute dt) \<le> 63"
    using uint_bounded[of "minute dt"] by simp_all
  from day_number_bounds[OF y m d] h mi show ?thesis
    unfolding linearMinutes_day_number by simp
qed

lemma uint_to_minutes: "uint (progress_datetime_to_minutes dt) = linearMinutes dt"
proof -
  have "linearMinutes dt < 2 ^ 64" using linearMinutes_bounds[of dt] by simp
  then show ?thesis using linearMinutes_bounds[of dt]
    by (simp add: to_minutes_of_int uint_word_of_int_eq take_bit_int_eq_self)
qed

lemma sint_to_minutes: "sint (progress_datetime_to_minutes dt) = linearMinutes dt"
proof -
  have "linearMinutes dt < 2 ^ 63" "- (2 ^ 63) \<le> linearMinutes dt"
    using linearMinutes_bounds[of dt] by simp_all
  then show ?thesis
    by (simp add: to_minutes_of_int sint_sbintrunc' signed_take_bit_int_eq_self)
qed

lemma compare_linearMinutes:
  "progress_datetime_compare a b = linearMinutes b - linearMinutes a"
  by (simp add: progress_datetime_compare_def sint_to_minutes)

lemma progress_compute_interior:
  fixes s e c :: "64 word"
  assumes "s < c" "c < e" "uint c < 2 ^ 33"
  shows "progress_compute s e c =
    (BRANCH_DIVIDE, word_of_int (((uint c - uint s) * 1000000) div (uint e - uint s)))"
proof -
  have se: "s < e" using assms(1,2) by simp
  then have d0: "0 < e - s" by (simp add: word_gt_0)
  have cs: "uint (c - s) = uint c - uint s" using assms(1) by (simp add: uint_sub_if' word_less_def)
  have es: "uint (e - s) = uint e - uint s" using se by (simp add: uint_sub_if' word_less_def)
  have "0 \<le> uint s" by simp
  then have "uint c - uint s < 2 ^ 33" using assms(3) by linarith
  moreover have "0 \<le> uint c - uint s" using assms(1) by (simp add: word_less_def)
  ultimately have "uint (c - s) * uint (1000000 :: 64 word) < 2 ^ 64"
    unfolding cs by simp
  then have m: "uint ((c - s) * 1000000) = (uint c - uint s) * 1000000"
    using uint_mult_lem[of "c - s" "1000000 :: 64 word"] cs by simp
  have "uint ((c - s) * 1000000 div (e - s)) = ((uint c - uint s) * 1000000) div (uint e - uint s)"
    by (simp only: uint_div m es)
  then have "(c - s) * 1000000 div (e - s) = word_of_int (((uint c - uint s) * 1000000) div (uint e - uint s))"
    by (metis word_of_int_uint)
  then show ?thesis
    using assms(1,2) d0 by (simp add: progress_compute_def Let_def not_le)
qed

lemma scaled_quotient_le:
  fixes a k :: int
  assumes "a \<le> k" "0 < k"
  shows "(a * 1000000) div k \<le> 1000000"
proof -
  have "(a * 1000000) div k \<le> (k * 1000000) div k"
    by (rule zdiv_mono1) (use assms in simp_all)
  also have "\<dots> = 1000000"
    by (rule nonzero_mult_div_cancel_left) (use assms(2) in simp)
  finally show ?thesis .
qed

lemma percentage_exact:
  "uint (progress_percentage_x10000 d n) =
     computeProgressFixedPoint (linearMinutes (start_datetime d)) (linearMinutes (end_datetime d))
       (linearMinutes n)"
proof -
  let ?s = "progress_datetime_to_minutes (start_datetime d)"
  let ?e = "progress_datetime_to_minutes (end_datetime d)"
  let ?c = "progress_datetime_to_minutes n"
  have le: "?c \<le> ?s \<longleftrightarrow> linearMinutes n \<le> linearMinutes (start_datetime d)"
    "?e \<le> ?c \<longleftrightarrow> linearMinutes (end_datetime d) \<le> linearMinutes n"
    by (simp_all add: word_le_def uint_to_minutes)
  consider (before) "?c \<le> ?s" | (after) "\<not> ?c \<le> ?s" "?e \<le> ?c"
    | (inside) "?s < ?c" "?c < ?e" by (meson not_le)
  then show ?thesis
  proof cases
    case before
    then show ?thesis using le
      by (simp add: progress_percentage_x10000_def progress_compute_def computeProgressFixedPoint_def)
  next
    case after
    then show ?thesis using le
      by (simp add: progress_percentage_x10000_def progress_compute_def computeProgressFixedPoint_def)
  next
    case inside
    have b: "uint ?c < 2 ^ 33" using linearMinutes_bounds[of n] by (simp add: uint_to_minutes)
    let ?q = "((linearMinutes n - linearMinutes (start_datetime d)) * 1000000)
                div (linearMinutes (end_datetime d) - linearMinutes (start_datetime d))"
    have lt: "linearMinutes (start_datetime d) < linearMinutes n"
      "linearMinutes n < linearMinutes (end_datetime d)"
      using inside by (simp_all add: word_less_def uint_to_minutes)
    have q0: "0 \<le> ?q" using lt by (simp add: pos_imp_zdiv_nonneg_iff)
    have "?q \<le> 1000000" by (rule scaled_quotient_le) (use lt in simp_all)
    then have q1: "?q < 2 ^ 64" by simp
    have "progress_percentage_x10000 d n = word_of_int ?q"
      using progress_compute_interior[OF inside b]
      by (simp add: progress_percentage_x10000_def uint_to_minutes)
    then have "uint (progress_percentage_x10000 d n) = ?q"
      using q0 q1 by (simp add: uint_word_of_int_eq take_bit_int_eq_self)
    then show ?thesis using lt by (simp add: computeProgressFixedPoint_def)
  qed
qed

lemma computeProgressFixedPoint_range:
  "0 \<le> computeProgressFixedPoint s e n \<and> computeProgressFixedPoint s e n \<le> 1000000"
proof (cases "s < n \<and> n < e")
  case True
  have "((n - s) * 1000000) div (e - s) \<le> 1000000"
    by (rule scaled_quotient_le) (use True in simp_all)
  moreover have "0 \<le> ((n - s) * 1000000) div (e - s)"
    using True by (simp add: pos_imp_zdiv_nonneg_iff)
  ultimately show ?thesis using True by (simp add: computeProgressFixedPoint_def)
next
  case False
  then show ?thesis by (auto simp: computeProgressFixedPoint_def)
qed

lemma computeProgressFixedPoint_mono:
  assumes "n1 \<le> n2"
  shows "computeProgressFixedPoint s e n1 \<le> computeProgressFixedPoint s e n2"
proof -
  consider (a) "n1 \<le> s" | (b) "s < n1" "e \<le> n2" | (c) "s < n1" "n2 < e" by linarith
  then show ?thesis
  proof cases
    case a
    then show ?thesis using computeProgressFixedPoint_range[of s e n2]
      by (simp add: computeProgressFixedPoint_def[of s e n1])
  next
    case b
    then have "computeProgressFixedPoint s e n2 = 1000000"
      using assms by (simp add: computeProgressFixedPoint_def)
    then show ?thesis using computeProgressFixedPoint_range[of s e n1] by simp
  next
    case c
    have "((n1 - s) * 1000000) div (e - s) \<le> ((n2 - s) * 1000000) div (e - s)"
      by (rule zdiv_mono1) (use c assms in simp_all)
    then show ?thesis using c assms by (simp add: computeProgressFixedPoint_def)
  qed
qed

lemma julian_day_int32:
  "0 \<le> 1461 * (uint (year dt) + 4800 + c_div (uint (month dt) - 14) 12)
   \<and> 1461 * (uint (year dt) + 4800 + c_div (uint (month dt) - 14) 12) < 2 ^ 31
   \<and> 0 \<le> 367 * (uint (month dt) - 2 - 12 * c_div (uint (month dt) - 14) 12)
   \<and> 367 * (uint (month dt) - 2 - 12 * c_div (uint (month dt) - 14) 12) < 2 ^ 31
   \<and> 0 \<le> uint (year dt) + 4900 + c_div (uint (month dt) - 14) 12
   \<and> 3 * c_div (uint (year dt) + 4900 + c_div (uint (month dt) - 14) 12) 100 < 2 ^ 31
   \<and> 0 \<le> julian_day dt \<and> julian_day dt < 2 ^ 31"
proof -
  have y: "0 \<le> uint (year dt)" "uint (year dt) \<le> 4095"
    using uint_bounded[of "year dt"] by simp_all
  have m: "0 \<le> uint (month dt)" "uint (month dt) \<le> 15"
    using uint_bounded[of "month dt"] by simp_all
  have d: "0 \<le> uint (day dt)" "uint (day dt) \<le> 31"
    using uint_bounded[of "day dt"] by simp_all
  define a where "a = c_div (uint (month dt) - 14) 12"
  have a: "a = (if uint (month dt) \<le> 2 then - 1 else 0)" unfolding a_def by (rule c_div_month[OF m])
  have n: "0 \<le> uint (year dt) + 4900 + a" using y a by (simp split: if_splits)
  have q: "c_div (uint (year dt) + 4900 + a) 100 \<le> uint (year dt) + 4900 + a"
    unfolding c_div_nonneg[OF n, of 100, simplified]
    by (rule order_trans[OF zdiv_mono2[of _ 1 100]]) (use n in simp_all)
  have j: "1720000 \<le> julian_day dt \<and> julian_day dt \<le> 3217185"
    unfolding julian_day_day_number by (rule day_number_bounds[OF y m d])
  show ?thesis
    unfolding a_def[symmetric] using y m a n q j by (auto split: if_splits)
qed

section \<open>Claims about the calendar order\<close>

text \<open>
  C5. For valid calendar values the comparison is the difference of \<open>linearMinutes\<close>
  and orders them exactly as the calendar does: \<open>a\<close> is before \<open>b\<close> precisely when the
  comparison is positive, equal values are the same date, the order is irreflexive,
  transitive and total, \<open>linearMinutes\<close> is strictly monotonic, and 31 December 23:59 of
  a year is exactly one minute before 1 January 00:00 of the next year.
\<close>
theorem compare_is_chronological_order:
  assumes "valid_datetime a" "valid_datetime b" "valid_datetime c"
  shows "progress_datetime_compare a b = linearMinutes b - linearMinutes a
    \<and> (chrono_less a b \<longleftrightarrow> linearMinutes a < linearMinutes b)
    \<and> (0 < progress_datetime_compare a b \<longleftrightarrow> chrono_less a b)
    \<and> (progress_datetime_compare a b = 0 \<longleftrightarrow> a = b)
    \<and> (progress_datetime_compare a b < 0 \<longleftrightarrow> chrono_less b a)
    \<and> \<not> 0 < progress_datetime_compare a a
    \<and> (0 < progress_datetime_compare a b \<and> 0 < progress_datetime_compare b c
          \<longrightarrow> 0 < progress_datetime_compare a c)
    \<and> (0 < progress_datetime_compare a b \<or> a = b \<or> 0 < progress_datetime_compare b a)
    \<and> (year a \<noteq> 4095 \<longrightarrow>
          progress_datetime_compare
            \<lparr>year = year a, month = 12, day = 31, hour = 23, minute = 59\<rparr>
            \<lparr>year = year a + 1, month = 1, day = 1, hour = 0, minute = 0\<rparr> = 1)"
proof -
  have ab: "chrono_less a b \<longleftrightarrow> linearMinutes a < linearMinutes b"
    by (rule chrono_less_iff_linearMinutes[OF assms(1,2)])
  have ba: "chrono_less b a \<longleftrightarrow> linearMinutes b < linearMinutes a"
    by (rule chrono_less_iff_linearMinutes[OF assms(2,1)])
  have eq: "linearMinutes a = linearMinutes b \<longleftrightarrow> a = b"
    using chrono_trichotomy[of a b] ab ba by auto
  have step: "progress_datetime_compare
            \<lparr>year = year a, month = 12, day = 31, hour = 23, minute = 59\<rparr>
            \<lparr>year = year a + 1, month = 1, day = 1, hour = 0, minute = 0\<rparr> = 1"
    if "year a \<noteq> 4095"
  proof -
    have "uint (year a) \<noteq> 4095" using that by (simp add: word_uint_eq_iff)
    moreover have "uint (year a) < 4096" using uint_bounded[of "year a"] by simp
    ultimately have "uint (year a) + 1 < 2 ^ 12" by simp
    then have u: "uint (year a + 1) = uint (year a) + 1"
      by (simp add: uint_plus_if')
    have "day_number (uint (year a)) 12 31 = day_number (uint (year a)) 1 1
        + days_before 12 (uint (year a)) + (31 - 1)"
      by (rule day_number_decomp) simp
    then show ?thesis
      unfolding compare_linearMinutes linearMinutes_day_number
      by (simp add: u day_number_year_succ year_length_def days_before_def)
  qed
  show ?thesis
    unfolding compare_linearMinutes using ab ba eq step
    by (auto simp: compare_linearMinutes)
qed

theorem compare_is_chronological_order_witness:
  "valid_datetime date_2024_12_31_2359 \<and> valid_datetime date_2025_01_01_0000
   \<and> valid_datetime date_2025_07_02_1200
   \<and> chrono_less date_2024_12_31_2359 date_2025_01_01_0000
   \<and> 0 < progress_datetime_compare date_2024_12_31_2359 date_2025_01_01_0000
   \<and> progress_datetime_compare date_2024_12_31_2359 date_2025_01_01_0000 = 1"
proof -
  have a: "valid_datetime date_2024_12_31_2359"
    by (simp add: valid_datetime_def date_2024_12_31_2359_def month_length_def is_leap_year_def)
  have b: "valid_datetime date_2025_01_01_0000"
    by (simp add: valid_datetime_def date_2025_01_01_0000_def month_length_def is_leap_year_def)
  have c: "valid_datetime date_2025_07_02_1200"
    by (simp add: valid_datetime_def date_2025_07_02_1200_def month_length_def is_leap_year_def)
  have l: "chrono_less date_2024_12_31_2359 date_2025_01_01_0000"
    by (simp add: chrono_less_def date_2024_12_31_2359_def date_2025_01_01_0000_def)
  have y: "year date_2024_12_31_2359 \<noteq> 4095" by (simp add: date_2024_12_31_2359_def)
  from compare_is_chronological_order[OF a b c] a b c l y show ?thesis
    by (simp add: date_2024_12_31_2359_def date_2025_01_01_0000_def)
qed

section \<open>Claims about the progress value\<close>

lemmas example_dates = date_2024_12_31_2359_def date_2025_01_01_0000_def date_2025_07_02_1200_def
  date_2025_12_31_2359_def date_2026_01_01_0000_def date_2125_12_31_2359_def date_4095_01_01_0000_def
  range_2025_def range_empty_def range_to_2125_def

lemmas progress_eval = progress_percentage_x10000_def progress_compute_def
  progress_datetime_to_minutes_def julian_day_def c_div_def linearMinutes_def

text \<open>
  C1 as stated fails: with end equal to start and the current time before that instant,
  the first test of the calculation (\<open>current_minutes <= start_minutes\<close>) yields 0, not
  1,000,000. The range below starts and ends on 2 July 2025, 12:00; the current time is
  1 January 2025, 00:00.
\<close>

theorem equal_range_before_start_counterexample:
  "linearMinutes (end_datetime range_empty) = linearMinutes (start_datetime range_empty)
   \<and> progress_percentage_x10000 range_empty date_2025_01_01_0000 = 0
   \<and> progress_percentage_x10000 range_empty date_2025_01_01_0000 \<noteq> 1000000"
  by (simp add: example_dates progress_eval)

text \<open>
  C1, amended. When end and start have equal \<open>linearMinutes\<close>, the progress value is 0
  while the current time is at or before that instant and 1,000,000 once it is after it.
\<close>

theorem equal_range_progress:
  assumes "linearMinutes (end_datetime d) = linearMinutes (start_datetime d)"
  shows "progress_percentage_x10000 d n =
    (if linearMinutes n \<le> linearMinutes (start_datetime d) then 0 else 1000000)"
proof -
  have "uint (progress_percentage_x10000 d n) =
      (if linearMinutes n \<le> linearMinutes (start_datetime d) then 0 else 1000000)"
    unfolding percentage_exact computeProgressFixedPoint_def assms by simp
  then show ?thesis by (simp add: word_uint_eq_iff split: if_splits)
qed

theorem equal_range_progress_witness:
  "linearMinutes (end_datetime range_empty) = linearMinutes (start_datetime range_empty)
   \<and> progress_percentage_x10000 range_empty date_2025_12_31_2359 = 1000000
   \<and> progress_percentage_x10000 range_empty date_2025_07_02_1200 = 0"
proof -
  have e: "linearMinutes (end_datetime range_empty) = linearMinutes (start_datetime range_empty)"
    by (simp add: range_empty_def)
  show ?thesis
    using e equal_range_progress[OF e, of date_2025_12_31_2359]
      equal_range_progress[OF e, of date_2025_07_02_1200]
    by (simp add: example_dates linearMinutes_def julian_day_def c_div_def)
qed

text \<open>
  C2. For a range with start before end, the value computed in \<open>uint64_t\<close> equals the
  piecewise reference on exact integers (0 up to the start, 1,000,000 from the end on, the
  floor of the scaled quotient in between), the minute counts are exact, and the value is
  exactly 0 at the start and exactly 1,000,000 at the end.
\<close>

theorem progress_equals_reference:
  assumes "linearMinutes (start_datetime d) < linearMinutes (end_datetime d)"
  shows "uint (progress_percentage_x10000 d n) =
      computeProgressFixedPoint (linearMinutes (start_datetime d))
        (linearMinutes (end_datetime d)) (linearMinutes n)
    \<and> uint (progress_datetime_to_minutes n) = linearMinutes n
    \<and> progress_percentage_x10000 d (start_datetime d) = 0
    \<and> progress_percentage_x10000 d (end_datetime d) = 1000000"
proof -
  have "uint (progress_percentage_x10000 d (start_datetime d)) = 0"
    unfolding percentage_exact computeProgressFixedPoint_def by simp
  moreover have "uint (progress_percentage_x10000 d (end_datetime d)) = 1000000"
    unfolding percentage_exact computeProgressFixedPoint_def using assms by simp
  ultimately show ?thesis
    by (simp add: percentage_exact uint_to_minutes word_uint_eq_iff)
qed

theorem progress_equals_reference_witness:
  "linearMinutes (start_datetime range_2025) < linearMinutes (end_datetime range_2025)
   \<and> uint (progress_percentage_x10000 range_2025 date_2025_07_02_1200) = 500000
   \<and> progress_percentage_x10000 range_2025 date_2025_01_01_0000 = 0
   \<and> progress_percentage_x10000 range_2025 date_2025_12_31_2359 = 1000000"
proof -
  have lt: "linearMinutes (start_datetime range_2025) < linearMinutes (end_datetime range_2025)"
    by (simp add: example_dates linearMinutes_def julian_day_def c_div_def)
  show ?thesis
    using lt progress_equals_reference[OF lt, of date_2025_07_02_1200]
    by (simp add: example_dates linearMinutes_def julian_day_def c_div_def
        computeProgressFixedPoint_def)
qed

text \<open>
  C3. For a range with start before end, the progress value does not decrease when the
  current time advances, and it lies between 0 and 1,000,000.
\<close>

theorem progress_monotone_and_bounded:
  assumes "linearMinutes (start_datetime d) < linearMinutes (end_datetime d)"
    and "linearMinutes now1 \<le> linearMinutes now2"
  shows "progress_percentage_x10000 d now1 \<le> progress_percentage_x10000 d now2
    \<and> 0 \<le> uint (progress_percentage_x10000 d now1)
    \<and> progress_percentage_x10000 d now1 \<le> 1000000"
proof -
  have "uint (progress_percentage_x10000 d now1) \<le> uint (progress_percentage_x10000 d now2)"
    unfolding percentage_exact by (rule computeProgressFixedPoint_mono[OF assms(2)])
  moreover have "uint (progress_percentage_x10000 d now1) \<le> 1000000"
    unfolding percentage_exact using computeProgressFixedPoint_range by simp
  ultimately show ?thesis by (simp add: word_le_def)
qed

theorem progress_monotone_and_bounded_witness:
  "linearMinutes (start_datetime range_2025) < linearMinutes (end_datetime range_2025)
   \<and> linearMinutes date_2025_01_01_0000 \<le> linearMinutes date_2025_07_02_1200
   \<and> progress_percentage_x10000 range_2025 date_2025_01_01_0000
        \<le> progress_percentage_x10000 range_2025 date_2025_07_02_1200
   \<and> progress_percentage_x10000 range_2025 date_2025_01_01_0000 \<le> 1000000"
proof -
  have lt: "linearMinutes (start_datetime range_2025) < linearMinutes (end_datetime range_2025)"
    by (simp add: example_dates linearMinutes_def julian_day_def c_div_def)
  have le: "linearMinutes date_2025_01_01_0000 \<le> linearMinutes date_2025_07_02_1200"
    by (simp add: example_dates linearMinutes_def julian_day_def c_div_def)
  show ?thesis
    using lt le progress_monotone_and_bounded[OF lt le] by simp
qed

text \<open>
  C10. The zero-duration fallback inside the interior case is never taken; the dividing
  branch is taken exactly when start < now < end, and there the duration is positive
  (the subtraction does not wrap), so the division is well defined.
\<close>

theorem interior_branch_divides:
  "fst (progress_compute s e c) \<noteq> BRANCH_ZERO_DURATION
   \<and> (fst (progress_compute s e c) = BRANCH_DIVIDE \<longleftrightarrow> s < c \<and> c < e)
   \<and> (fst (progress_compute s e c) = BRANCH_DIVIDE \<longrightarrow>
        0 < e - s \<and> uint (e - s) = uint e - uint s \<and> 0 < uint e - uint s
        \<and> snd (progress_compute s e c) = (c - s) * 1000000 div (e - s))"
proof -
  have pos: "0 < e - s \<and> uint (e - s) = uint e - uint s \<and> 0 < uint e - uint s"
    if "s < c" "c < e"
  proof -
    from that have se: "s < e" by simp
    then show ?thesis by (simp add: word_gt_0 uint_sub_if' word_less_def)
  qed
  show ?thesis
  proof (cases "s < c \<and> c < e")
    case True
    with pos[of] show ?thesis
      by (simp add: progress_compute_def Let_def not_le)
  next
    case False
    then show ?thesis by (auto simp: progress_compute_def Let_def not_le not_less)
  qed
qed

theorem interior_branch_divides_witness:
  "fst (progress_compute 10 20 15) = BRANCH_DIVIDE \<and> (0 :: 64 word) < 20 - 10
   \<and> snd (progress_compute 10 20 15) = 500000"
  using interior_branch_divides[of 10 20 15] by (simp add: progress_compute_def)

lemmas example_states = example_state_def example_host_def example_movement_def
  empty_filesystem_def filesystem_with_2025_def

section \<open>Claims about the settings navigator\<close>

lemma validate_not_before:
  "0 \<le> progress_datetime_compare (start_datetime (dates (progress_face_validate_end_datetime s)))
           (end_datetime (dates (progress_face_validate_end_datetime s)))"
  by (simp add: progress_face_validate_end_datetime_def progress_datetime_compare_def)

lemma validate_page: "current_page (progress_face_validate_end_datetime s) = current_page s"
  by (simp add: progress_face_validate_end_datetime_def)

lemma increment_page:
  "progress_face_increment_current host s = Some s' \<Longrightarrow> current_page s' = current_page s"
  by (auto simp: progress_face_increment_current_def Let_def progress_face_set_active_datetime_def
      validate_page split: option.splits if_splits)

lemma increment_end_page:
  assumes "current_page s = PROGRESS_PAGE_END" "progress_face_increment_current host s = Some s'"
  shows "\<exists>e. progress_increment_field host (current_subpage s) (end_datetime (dates s)) = Some e
      \<and> s' = progress_face_validate_end_datetime
               (s\<lparr>dates_changed := True, dates := (dates s)\<lparr>end_datetime := e\<rparr>\<rparr>)"
  using assms
  by (auto simp: progress_face_increment_current_def Let_def progress_face_set_active_datetime_def
      progress_face_get_active_datetime_def split: option.splits)


lemma validate_end_not_before_start:
  "end_not_before_start (progress_face_validate_end_datetime s)"
  unfolding end_not_before_start_def by (rule validate_not_before)

lemma increment_end_not_before_start:
  assumes "progress_face_increment_current host s = Some s'"
    and "current_page s' = PROGRESS_PAGE_END"
  shows "end_not_before_start s'"
proof -
  have "current_page s = PROGRESS_PAGE_END" using increment_page[OF assms(1)] assms(2) by simp
  from increment_end_page[OF this assms(1)] show ?thesis
    by (auto simp: validate_end_not_before_start)
qed

lemma end_not_before_start_quick_cycle:
  "end_not_before_start (s\<lparr>quick_cycle := q\<rparr>) = end_not_before_start s"
  by (simp add: end_not_before_start_def)

lemma end_not_before_start_subpage:
  "end_not_before_start (s\<lparr>current_subpage := p\<rparr>) = end_not_before_start s"
  by (simp add: end_not_before_start_def)

lemma loop_preserves:
  assumes "progress_face_loop host ev (s, mv) = Some (s', mv')"
    and "current_page s = PROGRESS_PAGE_END \<longrightarrow> end_not_before_start s"
  shows "current_page s' = PROGRESS_PAGE_END \<longrightarrow> end_not_before_start s'"
proof (cases ev)
  case EVENT_LIGHT_BUTTON_UP
  then show ?thesis using assms
    by (auto simp: Let_def validate_end_not_before_start validate_page
        end_not_before_start_subpage progress_face_persist_dates_def split: if_splits)
next
  case EVENT_ALARM_BUTTON_UP
  then show ?thesis using assms
    by (auto simp: Let_def progress_face_abort_quick_cycle_def
        dest: increment_end_not_before_start split: if_splits)
next
  case EVENT_TICK
  then show ?thesis using assms
    by (auto simp: progress_face_abort_quick_cycle_def end_not_before_start_quick_cycle
        dest: increment_end_not_before_start split: if_splits)
next
  case EVENT_LOW_ENERGY_UPDATE
  then show ?thesis using assms
    by (auto simp: progress_face_abort_quick_cycle_def end_not_before_start_quick_cycle
        dest: increment_end_not_before_start split: if_splits)
qed (use assms in \<open>auto simp: progress_face_abort_quick_cycle_def
       end_not_before_start_quick_cycle split: if_splits\<close>)

lemma run_preserves:
  assumes "progress_face_run evs sm = Some sm'"
    and "current_page (fst sm) = PROGRESS_PAGE_END \<longrightarrow> end_not_before_start (fst sm)"
  shows "current_page (fst sm') = PROGRESS_PAGE_END \<longrightarrow> end_not_before_start (fst sm')"
  using assms
proof (induction evs arbitrary: sm)
  case Nil
  then show ?case by simp
next
  case (Cons he evs)
  from Cons.prems(1) obtain sm1 where
    step: "progress_face_loop (fst he) (snd he) sm = Some sm1"
    and rest: "progress_face_run evs sm1 = Some sm'"
    by (auto split: option.splits)
  have "current_page (fst sm1) = PROGRESS_PAGE_END \<longrightarrow> end_not_before_start (fst sm1)"
    using loop_preserves[of "fst he" "snd he" "fst sm" "snd sm" "fst sm1" "snd sm1"]
      step Cons.prems(2) by simp
  then show ?case by (rule Cons.IH[OF rest])
qed

lemma setup_page_not_end:
  "progress_face_setup host fs (None, n) = (Some s, n') \<Longrightarrow> current_page s \<noteq> PROGRESS_PAGE_END"
  by (auto simp: progress_face_setup_def Let_def split: if_splits)

text \<open>
  C4 as stated fails for edits of the start date: \<open>_progress_face_increment_current\<close>
  runs the check only when the page is \<open>PROGRESS_PAGE_END\<close>. After a first-run setup in
  2025 (range 1 January 00:00 to 31 December 23:59, page EditStart, subpage Year) one
  press of the alarm button moves the start to 1 January 2026, after the end.
\<close>

theorem start_page_edit_counterexample:
  "progress_face_setup example_host empty_filesystem (None, 0)
     = (Some (example_state PROGRESS_PAGE_START PROGRESS_SUBPAGE_YEAR range_2025 False), 1)
   \<and> progress_face_run [(example_host, EVENT_ALARM_BUTTON_UP)]
       (example_state PROGRESS_PAGE_START PROGRESS_SUBPAGE_YEAR range_2025 False,
        example_movement empty_filesystem)
     = Some ((example_state PROGRESS_PAGE_START PROGRESS_SUBPAGE_YEAR
               (range_2025\<lparr>start_datetime := date_2026_01_01_0000\<rparr>)
               False)\<lparr>dates_changed := True\<rparr>,
             example_movement empty_filesystem)
   \<and> progress_datetime_compare date_2026_01_01_0000 date_2025_12_31_2359 < 0
   \<and> \<not> end_not_before_start
        ((example_state PROGRESS_PAGE_START PROGRESS_SUBPAGE_YEAR
             (range_2025\<lparr>start_datetime := date_2026_01_01_0000\<rparr>)
             False)\<lparr>dates_changed := True\<rparr>)"
  by (simp add: example_states example_dates progress_face_increment_current_def
      progress_increment_field_def progress_face_get_active_datetime_def
      progress_face_set_active_datetime_def host_current_year_def end_not_before_start_def
      progress_datetime_compare_def progress_datetime_to_minutes_def julian_day_def c_div_def
      progress_face_abort_quick_cycle_def
      progress_face_setup_def progress_face_load_dates_def progress_state_zero_def
      progress_filename_def dec_digit_def filesystem_file_exists_def)

text \<open>
  C4, amended. Every field edit applied on the EditEnd page is kept and followed by the
  check: the start is unchanged and the end is the edited value, or the start when the
  edited value would be before it, so the end is not before the start afterwards. The
  same check runs when EditStart advances to EditEnd. Hence the handler preserves
  "on the EditEnd page the end is not before the start" along any sequence of events.
\<close>

theorem end_page_keeps_end_not_before_start:
  "(current_page s = PROGRESS_PAGE_END \<and> progress_face_increment_current host s = Some s'
      \<longrightarrow> end_not_before_start s'
          \<and> start_datetime (dates s') = start_datetime (dates s)
          \<and> (\<exists>e. progress_increment_field host (current_subpage s) (end_datetime (dates s)) = Some e
                \<and> end_datetime (dates s') =
                    (if progress_datetime_compare (start_datetime (dates s)) e < 0
                     then start_datetime (dates s) else e)))
   \<and> (current_page t = PROGRESS_PAGE_START \<and> current_subpage t = PROGRESS_SUBPAGE_MINUTE
      \<longrightarrow> (\<exists>t'. progress_face_loop host EVENT_LIGHT_BUTTON_UP (t, mv) = Some (t', mv)
                \<and> current_page t' = PROGRESS_PAGE_END \<and> end_not_before_start t'))
   \<and> (progress_face_run evs (u, mu) = Some (u', mu')
        \<and> (current_page u = PROGRESS_PAGE_END \<longrightarrow> end_not_before_start u)
      \<longrightarrow> (current_page u' = PROGRESS_PAGE_END \<longrightarrow> end_not_before_start u'))"
proof (intro conjI impI)
  assume a: "current_page s = PROGRESS_PAGE_END \<and> progress_face_increment_current host s = Some s'"
  then have p: "current_page s' = PROGRESS_PAGE_END" using increment_page[of host s s'] by simp
  show "end_not_before_start s'" by (rule increment_end_not_before_start[OF conjunct2[OF a] p])
  from increment_end_page[OF conjunct1[OF a] conjunct2[OF a]] obtain e where
    e: "progress_increment_field host (current_subpage s) (end_datetime (dates s)) = Some e"
    and s': "s' = progress_face_validate_end_datetime
               (s\<lparr>dates_changed := True, dates := (dates s)\<lparr>end_datetime := e\<rparr>\<rparr>)"
    by blast
  show "start_datetime (dates s') = start_datetime (dates s)"
    unfolding s' by (simp add: progress_face_validate_end_datetime_def)
  show "\<exists>e. progress_increment_field host (current_subpage s) (end_datetime (dates s)) = Some e
      \<and> end_datetime (dates s') =
          (if progress_datetime_compare (start_datetime (dates s)) e < 0
           then start_datetime (dates s) else e)"
    using e unfolding s' by (simp add: progress_face_validate_end_datetime_def)
next
  assume "current_page t = PROGRESS_PAGE_START \<and> current_subpage t = PROGRESS_SUBPAGE_MINUTE"
  then show "\<exists>t'. progress_face_loop host EVENT_LIGHT_BUTTON_UP (t, mv) = Some (t', mv)
      \<and> current_page t' = PROGRESS_PAGE_END \<and> end_not_before_start t'"
    by (simp add: validate_end_not_before_start validate_page)
next
  assume "progress_face_run evs (u, mu) = Some (u', mu')
        \<and> (current_page u = PROGRESS_PAGE_END \<longrightarrow> end_not_before_start u)"
    and "current_page u' = PROGRESS_PAGE_END"
  then show "end_not_before_start u'"
    using run_preserves[of evs "(u, mu)" "(u', mu')"] by simp
qed

theorem end_page_keeps_end_not_before_start_witness:
  "current_page (example_state PROGRESS_PAGE_END PROGRESS_SUBPAGE_YEAR range_to_2125 False)
     = PROGRESS_PAGE_END
   \<and> progress_face_increment_current example_host
       (example_state PROGRESS_PAGE_END PROGRESS_SUBPAGE_YEAR range_to_2125 False)
     = Some ((example_state PROGRESS_PAGE_END PROGRESS_SUBPAGE_YEAR range_to_2125 False)
              \<lparr>dates := range_to_2125\<lparr>end_datetime := date_2025_01_01_0000\<rparr>,
               dates_changed := True\<rparr>)
   \<and> end_not_before_start
       ((example_state PROGRESS_PAGE_END PROGRESS_SUBPAGE_YEAR range_to_2125 False)
              \<lparr>dates := range_to_2125\<lparr>end_datetime := date_2025_01_01_0000\<rparr>,
               dates_changed := True\<rparr>)
   \<and> progress_face_run [(example_host, EVENT_ALARM_BUTTON_UP)]
       (example_state PROGRESS_PAGE_END PROGRESS_SUBPAGE_YEAR range_to_2125 False,
        example_movement empty_filesystem) \<noteq> None
   \<and> current_page (example_state PROGRESS_PAGE_START PROGRESS_SUBPAGE_MINUTE range_2025 False)
     = PROGRESS_PAGE_START"
proof -
  let ?s = "example_state PROGRESS_PAGE_END PROGRESS_SUBPAGE_YEAR range_to_2125 False"
  let ?s' = "?s\<lparr>dates := range_to_2125\<lparr>end_datetime := date_2025_01_01_0000\<rparr>,
               dates_changed := True\<rparr>"
  let ?t = "example_state PROGRESS_PAGE_START PROGRESS_SUBPAGE_MINUTE range_2025 False"
  let ?mv = "example_movement empty_filesystem"
  have inc: "progress_face_increment_current example_host ?s = Some ?s'"
    by (simp add: example_states example_dates progress_face_increment_current_def
      progress_increment_field_def progress_face_get_active_datetime_def
      progress_face_set_active_datetime_def host_current_year_def
      progress_face_validate_end_datetime_def
      progress_datetime_compare_def progress_datetime_to_minutes_def julian_day_def c_div_def)
  have run: "progress_face_run [(example_host, EVENT_ALARM_BUTTON_UP)] (?s, ?mv) = Some (?s', ?mv)"
    using inc by (simp add: progress_face_abort_quick_cycle_def example_state_def)
  have pre: "end_not_before_start ?s"
    by (simp add: example_states example_dates end_not_before_start_def
      progress_datetime_compare_def progress_datetime_to_minutes_def julian_day_def c_div_def)
  have pg: "current_page ?s = PROGRESS_PAGE_END" "current_page ?t = PROGRESS_PAGE_START"
    "current_subpage ?t = PROGRESS_SUBPAGE_MINUTE"
    by (simp_all add: example_state_def)
  from end_page_keeps_end_not_before_start[of ?s example_host ?s' ?t ?mv
      "[(example_host, EVENT_ALARM_BUTTON_UP)]" ?s ?mv ?s' ?mv]
    inc run pre pg
  show ?thesis by simp
qed

text \<open>
  C8 as stated fails at the top of the 12-bit year field: the stored year 4095 plus 1 is
  stored as 0, which does not exceed the current year plus 100, so the result is the year
  0 and neither 4096 nor the current year minus 100 (here 2025 - 100).
\<close>

theorem year_4095_counterexample:
  "progress_increment_field example_host PROGRESS_SUBPAGE_YEAR date_4095_01_01_0000
     = Some (date_4095_01_01_0000\<lparr>year := 0\<rparr>)
   \<and> uint (host_current_year example_host) = 2025
   \<and> (0 :: 12 word) \<noteq> 2025 - 100"
  by (simp add: example_states example_dates progress_increment_field_def host_current_year_def)

text \<open>
  C8, amended. For every stored year below 4095 and every host current year from 100 to
  65535, a Year increment adds 1, and if the result exceeds the current year plus 100 it
  becomes exactly the current year minus 100; the other fields are untouched, the
  increment always returns, and every increment of any field sets \<open>dates_changed\<close>.
\<close>

theorem year_increment:
  assumes "uint (year dt) < 4095"
    and "100 \<le> unit_year (local_date_time host) + WATCH_RTC_REFERENCE_YEAR host"
    and "unit_year (local_date_time host) + WATCH_RTC_REFERENCE_YEAR host < 65536"
  shows "(\<exists>dt'. progress_increment_field host PROGRESS_SUBPAGE_YEAR dt = Some dt'
           \<and> uint (year dt') =
               (if uint (year dt) + 1
                    > int (unit_year (local_date_time host) + WATCH_RTC_REFERENCE_YEAR host) + 100
                then int (unit_year (local_date_time host) + WATCH_RTC_REFERENCE_YEAR host) - 100
                else uint (year dt) + 1)
           \<and> month dt' = month dt \<and> day dt' = day dt \<and> hour dt' = hour dt
           \<and> minute dt' = minute dt)
    \<and> (progress_face_increment_current host s = Some s' \<longrightarrow> dates_changed s')
    \<and> (current_subpage s = PROGRESS_SUBPAGE_YEAR
          \<longrightarrow> progress_face_increment_current host s \<noteq> None)"
proof -
  define cy where "cy = unit_year (local_date_time host) + WATCH_RTC_REFERENCE_YEAR host"
  have "cy < 65536" using assms(3) by (simp only: cy_def)
  then have "unat (word_of_nat cy :: 16 word) = cy"
    by (simp add: unat_of_nat)
  then have "uint (word_of_nat cy :: 16 word) = int cy"
    by (simp only: uint_nat)
  then have cyw: "uint (host_current_year host) = int cy"
    by (simp only: host_current_year_def cy_def)
  have y1: "uint (year dt + 1) = uint (year dt) + 1"
    using assms(1) by (simp add: uint_plus_if')
  have wrap: "uint (word_of_int (int cy - 100) :: 12 word) = int cy - 100"
    if "uint (year dt) + 1 > int cy + 100"
  proof -
    have "int cy - 100 < 2 ^ 12" using that assms(1) by simp
    moreover have "0 \<le> int cy - 100" using assms(2) by (simp add: cy_def)
    ultimately show ?thesis
      by (intro trans[OF uint_word_of_int_eq]) (simp add: take_bit_int_eq_self)
  qed
  have dc: "dates_changed s'" if "progress_face_increment_current host s = Some s'"
    using that
    by (auto simp: progress_face_increment_current_def Let_def
        progress_face_set_active_datetime_def progress_face_validate_end_datetime_def
        split: option.splits if_splits)
  have tot: "progress_face_increment_current host s \<noteq> None"
    if "current_subpage s = PROGRESS_SUBPAGE_YEAR"
    using that
    by (simp add: progress_face_increment_current_def progress_increment_field_def Let_def)
  have fld: "\<exists>dt'. progress_increment_field host PROGRESS_SUBPAGE_YEAR dt = Some dt'
           \<and> uint (year dt') =
               (if uint (year dt) + 1 > int cy + 100 then int cy - 100 else uint (year dt) + 1)
           \<and> month dt' = month dt \<and> day dt' = day dt \<and> hour dt' = hour dt
           \<and> minute dt' = minute dt"
    using wrap by (auto simp: progress_increment_field_def Let_def cyw y1)
  show ?thesis
    unfolding cy_def[symmetric] using fld dc tot by blast
qed

theorem year_increment_witness:
  "uint (year date_2125_12_31_2359) < 4095
   \<and> progress_increment_field example_host PROGRESS_SUBPAGE_YEAR date_2125_12_31_2359
       = Some (date_2125_12_31_2359\<lparr>year := 1925\<rparr>)
   \<and> progress_increment_field example_host PROGRESS_SUBPAGE_YEAR date_2025_01_01_0000
       = Some date_2026_01_01_0000"
proof -
  have h: "uint (year date_2125_12_31_2359) < 4095"
    "100 \<le> unit_year (local_date_time example_host) + WATCH_RTC_REFERENCE_YEAR example_host"
    "unit_year (local_date_time example_host) + WATCH_RTC_REFERENCE_YEAR example_host < 65536"
    by (simp_all add: example_dates example_host_def)
  from year_increment[OF h] h(1) show ?thesis
    by (simp add: example_states example_dates progress_increment_field_def host_current_year_def)
qed

section \<open>Claims about persistence and the quick cycle\<close>

text \<open>
  C6 as stated fails in its last part: when the stored bytes already equal the bytes of
  the range in memory, two calls of persist in a row perform no write at all, not exactly
  one.
\<close>

theorem persist_twice_no_write_counterexample:
  "fs_writes filesystem_with_2025 = []
   \<and> fs_writes (snd (progress_face_persist_dates
        (fst (progress_face_persist_dates
               (example_state PROGRESS_PAGE_DISPLAY PROGRESS_SUBPAGE_YEAR range_2025 True)
               filesystem_with_2025))
        (snd (progress_face_persist_dates
               (example_state PROGRESS_PAGE_DISPLAY PROGRESS_SUBPAGE_YEAR range_2025 True)
               filesystem_with_2025)))) = []"
  by (simp add: example_states progress_face_persist_dates_def progress_filename_def dec_digit_def
      filesystem_file_exists_def filesystem_read_file_def)

text \<open>
  C6, amended. Persist reads back the stored record and compares it byte for byte with
  the range in memory (all 16 bytes: the ten field values and the bits that belong to no
  field). It issues no write when the file exists, the read succeeds and the bytes are
  equal, and exactly one write of the range otherwise; it always clears \<open>dates_changed\<close>
  and leaves the rest of the state as it is. When the store reads and writes the file of
  the instance successfully, a second call in a row changes nothing, so two calls in a
  row perform at most one write.
\<close>

theorem persist_writes_only_on_change:
  "fst (progress_face_persist_dates s fs) = s\<lparr>dates_changed := False\<rparr>
   \<and> snd (progress_face_persist_dates s fs) =
       (if filesystem_file_exists fs (progress_filename (face_index s))
           \<and> filesystem_read_file fs (progress_filename (face_index s)) = Some (dates s)
        then fs
        else filesystem_write_file fs (progress_filename (face_index s)) (dates s))
   \<and> fs_writes (snd (progress_face_persist_dates s fs)) =
       (if filesystem_file_exists fs (progress_filename (face_index s))
           \<and> filesystem_read_file fs (progress_filename (face_index s)) = Some (dates s)
        then fs_writes fs
        else fs_writes fs @ [(progress_filename (face_index s), dates s)])
   \<and> (fs_read_ok fs (progress_filename (face_index s))
        \<and> fs_write_ok fs (progress_filename (face_index s))
      \<longrightarrow> progress_face_persist_dates (fst (progress_face_persist_dates s fs))
              (snd (progress_face_persist_dates s fs))
            = progress_face_persist_dates s fs)"
  by (auto simp: progress_face_persist_dates_def Let_def filesystem_file_exists_def
      filesystem_read_file_def filesystem_write_file_def split: option.splits)

theorem persist_writes_only_on_change_witness:
  "fs_read_ok empty_filesystem (progress_filename 0)
   \<and> fs_write_ok empty_filesystem (progress_filename 0)
   \<and> fs_writes (snd (progress_face_persist_dates
        (example_state PROGRESS_PAGE_DISPLAY PROGRESS_SUBPAGE_YEAR range_2025 True)
        empty_filesystem)) = [(''prog000.u64'', range_2025)]
   \<and> fs_writes (snd (progress_face_persist_dates
        (fst (progress_face_persist_dates
               (example_state PROGRESS_PAGE_DISPLAY PROGRESS_SUBPAGE_YEAR range_2025 True)
               empty_filesystem))
        (snd (progress_face_persist_dates
               (example_state PROGRESS_PAGE_DISPLAY PROGRESS_SUBPAGE_YEAR range_2025 True)
               empty_filesystem)))) = [(''prog000.u64'', range_2025)]
   \<and> filesystem_read_file filesystem_with_2025_other_bytes ''prog000.u64''
       = Some (range_2025\<lparr>end_unused := 1\<rparr>)
   \<and> start_datetime (range_2025\<lparr>end_unused := 1\<rparr>) = start_datetime range_2025
   \<and> end_datetime (range_2025\<lparr>end_unused := 1\<rparr>) = end_datetime range_2025
   \<and> fs_writes (snd (progress_face_persist_dates
        (example_state PROGRESS_PAGE_DISPLAY PROGRESS_SUBPAGE_YEAR range_2025 True)
        filesystem_with_2025_other_bytes)) = [(''prog000.u64'', range_2025)]"
proof -
  let ?s = "example_state PROGRESS_PAGE_DISPLAY PROGRESS_SUBPAGE_YEAR range_2025 True"
  have f: "progress_filename 0 = ''prog000.u64''"
    by (simp add: progress_filename_def dec_digit_def)
  have ok: "fs_read_ok empty_filesystem (progress_filename (face_index ?s))"
    "fs_write_ok empty_filesystem (progress_filename (face_index ?s))"
    by (simp_all add: empty_filesystem_def)
  note T = persist_writes_only_on_change[of ?s empty_filesystem]
  have w: "fs_writes (snd (progress_face_persist_dates ?s empty_filesystem))
      = [(''prog000.u64'', range_2025)]"
    using T by (simp add: example_state_def f filesystem_file_exists_def empty_filesystem_def
        filesystem_write_file_def)
  have idem: "progress_face_persist_dates (fst (progress_face_persist_dates ?s empty_filesystem))
         (snd (progress_face_persist_dates ?s empty_filesystem))
      = progress_face_persist_dates ?s empty_filesystem"
    using T ok by blast
  have r: "filesystem_read_file filesystem_with_2025_other_bytes ''prog000.u64''
      = Some (range_2025\<lparr>end_unused := 1\<rparr>)"
    by (simp add: filesystem_read_file_def filesystem_with_2025_other_bytes_def)
  have ne: "range_2025\<lparr>end_unused := 1\<rparr> \<noteq> range_2025"
    by (simp add: range_2025_def)
  have o: "fs_writes (snd (progress_face_persist_dates ?s filesystem_with_2025_other_bytes))
      = [(''prog000.u64'', range_2025)]"
    using persist_writes_only_on_change[of ?s filesystem_with_2025_other_bytes] r ne
    by (simp add: example_state_def f filesystem_with_2025_other_bytes_def
        filesystem_write_file_def)
  show ?thesis unfolding idem using w r o by (simp add: empty_filesystem_def)
qed

lemma increment_quick_cycle:
  "progress_face_increment_current host s = Some s' \<Longrightarrow> quick_cycle s' = quick_cycle s"
  by (auto simp: progress_face_increment_current_def Let_def
      progress_face_set_active_datetime_def progress_face_validate_end_datetime_def
      split: option.splits if_splits)

text \<open>
  The sibling paths of the handler do call \<open>_progress_face_abort_quick_cycle\<close>: the release
  of the alarm button, the idle timeout and a tick that finds the alarm button up all
  clear \<open>quick_cycle\<close>.
\<close>

lemma release_and_timeout_clear_quick_cycle:
  assumes "quick_cycle s"
  shows "progress_face_loop host EVENT_ALARM_LONG_UP (s, mv)
       = Some (s\<lparr>quick_cycle := False\<rparr>, mv\<lparr>tick_frequency := 4\<rparr>)
   \<and> progress_face_loop host EVENT_TIMEOUT (s, mv)
       = Some (s\<lparr>quick_cycle := False\<rparr>, mv\<lparr>tick_frequency := 4\<rparr>)
   \<and> (\<not> btn_alarm host \<longrightarrow>
        progress_face_loop host EVENT_TICK (s, mv)
          = Some (s\<lparr>quick_cycle := False\<rparr>, mv\<lparr>tick_frequency := 4\<rparr>)
        \<and> progress_face_loop host EVENT_LOW_ENERGY_UPDATE (s, mv)
          = Some (s\<lparr>quick_cycle := False\<rparr>, mv\<lparr>tick_frequency := 4\<rparr>))
   \<and> (current_page s \<noteq> PROGRESS_PAGE_DISPLAY \<longrightarrow>
        progress_face_loop host EVENT_ALARM_BUTTON_UP (s, mv)
          = map_option (\<lambda>s'. (s', mv\<lparr>tick_frequency := 4\<rparr>))
              (progress_face_increment_current host (s\<lparr>quick_cycle := False\<rparr>))
        \<and> (progress_face_loop host EVENT_ALARM_BUTTON_UP (s, mv) = Some (s', mv')
             \<longrightarrow> \<not> quick_cycle s' \<and> tick_frequency mv' = 4)
        \<and> (progress_increment_field host (current_subpage s)
               (progress_face_get_active_datetime s) \<noteq> None
             \<longrightarrow> progress_face_loop host EVENT_ALARM_BUTTON_UP (s, mv) \<noteq> None))"
proof -
  have pg: "current_page s = PROGRESS_PAGE_START \<or> current_page s = PROGRESS_PAGE_END"
    if "current_page s \<noteq> PROGRESS_PAGE_DISPLAY"
    using that by (cases "current_page s") simp_all
  have up: "progress_face_loop host EVENT_ALARM_BUTTON_UP (s, mv)
          = map_option (\<lambda>s'. (s', mv\<lparr>tick_frequency := 4\<rparr>))
              (progress_face_increment_current host (s\<lparr>quick_cycle := False\<rparr>))"
    if "current_page s \<noteq> PROGRESS_PAGE_DISPLAY"
    using pg[OF that] assms by (auto simp: progress_face_abort_quick_cycle_def Let_def)
  have res: "\<not> quick_cycle s' \<and> tick_frequency mv' = 4"
    if "current_page s \<noteq> PROGRESS_PAGE_DISPLAY"
      "progress_face_loop host EVENT_ALARM_BUTTON_UP (s, mv) = Some (s', mv')"
    using that(2) unfolding up[OF that(1)]
    by (auto dest: increment_quick_cycle)
  have tot: "progress_face_loop host EVENT_ALARM_BUTTON_UP (s, mv) \<noteq> None"
    if "current_page s \<noteq> PROGRESS_PAGE_DISPLAY"
      "progress_increment_field host (current_subpage s)
               (progress_face_get_active_datetime s) \<noteq> None"
    using that(2) unfolding up[OF that(1)]
    by (auto simp: progress_face_increment_current_def Let_def
        progress_face_get_active_datetime_def split: option.splits if_splits)
  show ?thesis
    using assms up res tot by (simp add: progress_face_abort_quick_cycle_def)
qed

text \<open>
  C7. While \<open>quick_cycle\<close> is set, a page change has to clear it and restore the normal
  sampling rate, as the release of the alarm button and the idle timeout do. The
  \<open>EVENT_LIGHT_BUTTON_UP\<close> case of the handler misses the call of
  \<open>_progress_face_abort_quick_cycle\<close>. The evaluation below follows the face from a
  first-run setup in 2025: four presses of the light button reach subpage Minute, a long
  press of the alarm button starts the quick cycle (tick frequency 8), and the next press
  of the light button changes the page to EditEnd with \<open>quick_cycle\<close> still set and the
  tick frequency still 8. Five more presses of the light button reach the Display page,
  again with \<open>quick_cycle\<close> set; there, after the range was stored, a tick with the alarm
  button held increments the year of the end date, although the alarm button "does
  nothing in display mode". With an end year of 2125 that increment wraps to 1925 and
  leaves the end before the start, since the check runs on the EditEnd page only.
\<close>

theorem quick_cycle_survives_page_change:
  "progress_face_setup example_host empty_filesystem (None, 0)
     = (Some (example_state PROGRESS_PAGE_START PROGRESS_SUBPAGE_YEAR range_2025 False), 1)
   \<and> progress_face_run
       [(example_host, EVENT_LIGHT_BUTTON_UP), (example_host, EVENT_LIGHT_BUTTON_UP),
        (example_host, EVENT_LIGHT_BUTTON_UP), (example_host, EVENT_LIGHT_BUTTON_UP),
        (example_host, EVENT_ALARM_LONG_PRESS), (example_host, EVENT_LIGHT_BUTTON_UP)]
       (example_state PROGRESS_PAGE_START PROGRESS_SUBPAGE_YEAR range_2025 False,
        progress_face_activate
          (example_state PROGRESS_PAGE_START PROGRESS_SUBPAGE_YEAR range_2025 False)
          (example_movement empty_filesystem))
     = Some (example_state PROGRESS_PAGE_END PROGRESS_SUBPAGE_YEAR range_2025 True,
             \<lparr>tick_frequency = 8, filesystem = empty_filesystem\<rparr>)
   \<and> progress_face_run
       [(example_host, EVENT_LIGHT_BUTTON_UP), (example_host, EVENT_LIGHT_BUTTON_UP),
        (example_host, EVENT_LIGHT_BUTTON_UP), (example_host, EVENT_LIGHT_BUTTON_UP),
        (example_host, EVENT_LIGHT_BUTTON_UP)]
       (example_state PROGRESS_PAGE_END PROGRESS_SUBPAGE_YEAR range_2025 True,
        \<lparr>tick_frequency = 8, filesystem = empty_filesystem\<rparr>)
     = Some (example_state PROGRESS_PAGE_DISPLAY PROGRESS_SUBPAGE_YEAR range_2025 True,
             \<lparr>tick_frequency = 1,
              filesystem = filesystem_write_file empty_filesystem ''prog000.u64'' range_2025\<rparr>)
   \<and> progress_face_loop example_host_alarm_held EVENT_TICK
       (example_state PROGRESS_PAGE_DISPLAY PROGRESS_SUBPAGE_YEAR range_2025 True,
        \<lparr>tick_frequency = 1,
         filesystem = filesystem_write_file empty_filesystem ''prog000.u64'' range_2025\<rparr>)
     = Some ((example_state PROGRESS_PAGE_DISPLAY PROGRESS_SUBPAGE_YEAR
                (range_2025\<lparr>end_datetime := date_2025_12_31_2359\<lparr>year := 2026\<rparr>\<rparr>) True)
               \<lparr>dates_changed := True\<rparr>,
             \<lparr>tick_frequency = 1,
              filesystem = filesystem_write_file empty_filesystem ''prog000.u64'' range_2025\<rparr>)
   \<and> progress_face_loop example_host_alarm_held EVENT_TICK
       (example_state PROGRESS_PAGE_DISPLAY PROGRESS_SUBPAGE_YEAR range_to_2125 True,
        example_movement empty_filesystem)
     = Some ((example_state PROGRESS_PAGE_DISPLAY PROGRESS_SUBPAGE_YEAR
                (range_to_2125\<lparr>end_datetime := date_2125_12_31_2359\<lparr>year := 1925\<rparr>\<rparr>) True)
               \<lparr>dates_changed := True\<rparr>,
             example_movement empty_filesystem)
   \<and> \<not> end_not_before_start
        ((example_state PROGRESS_PAGE_DISPLAY PROGRESS_SUBPAGE_YEAR
            (range_to_2125\<lparr>end_datetime := date_2125_12_31_2359\<lparr>year := 1925\<rparr>\<rparr>) True)
           \<lparr>dates_changed := True\<rparr>)"
  by (simp add: example_states example_dates example_host_alarm_held_def
      progress_face_validate_end_datetime_def end_not_before_start_def
      progress_datetime_compare_def progress_datetime_to_minutes_def julian_day_def c_div_def
      progress_face_setup_def progress_face_load_dates_def progress_state_zero_def
      progress_filename_def dec_digit_def filesystem_file_exists_def host_current_year_def
      progress_face_activate_def progress_face_persist_dates_def
      progress_face_increment_current_def progress_increment_field_def
      progress_face_get_active_datetime_def progress_face_set_active_datetime_def)

text \<open>
  C9. Setup of a fresh context with a current year below 4096: when the file of the
  instance is absent or its read fails, the range is 1 January 00:00 to 31 December 23:59
  of the current year and the face opens on the EditStart page at subpage Year; when the
  read succeeds, the stored range is loaded and the face opens on the Display page.
\<close>

theorem setup_first_run_or_stored:
  assumes "unit_year (local_date_time host) + WATCH_RTC_REFERENCE_YEAR host < 4096"
  shows "(\<not> filesystem_file_exists fs (progress_filename (word_of_int n))
          \<or> filesystem_read_file fs (progress_filename (word_of_int n)) = None
        \<longrightarrow> progress_face_setup host fs (None, n) =
             (Some \<lparr>current_page = PROGRESS_PAGE_START, current_subpage = PROGRESS_SUBPAGE_YEAR,
                    face_index = word_of_int n,
                    dates = \<lparr>start_datetime =
                               \<lparr>year = word_of_nat (unit_year (local_date_time host)
                                                      + WATCH_RTC_REFERENCE_YEAR host),
                                month = 1, day = 1, hour = 0, minute = 0\<rparr>,
                             end_datetime =
                               \<lparr>year = word_of_nat (unit_year (local_date_time host)
                                                      + WATCH_RTC_REFERENCE_YEAR host),
                                month = 12, day = 31, hour = 23, minute = 59\<rparr>,
                             start_unused = 0, end_unused = 0\<rparr>,
                    dates_changed = False, quick_cycle = False\<rparr>, n + 1))
    \<and> (filesystem_file_exists fs (progress_filename (word_of_int n))
          \<and> filesystem_read_file fs (progress_filename (word_of_int n)) = Some d
        \<longrightarrow> progress_face_setup host fs (None, n) =
             (Some \<lparr>current_page = PROGRESS_PAGE_DISPLAY, current_subpage = PROGRESS_SUBPAGE_YEAR,
                    face_index = word_of_int n, dates = d,
                    dates_changed = False, quick_cycle = False\<rparr>, n + 1))
    \<and> unat (word_of_nat (unit_year (local_date_time host) + WATCH_RTC_REFERENCE_YEAR host)
              :: 12 word)
        = unit_year (local_date_time host) + WATCH_RTC_REFERENCE_YEAR host"
proof -
  define cy where "cy = unit_year (local_date_time host) + WATCH_RTC_REFERENCE_YEAR host"
  have lt: "cy < 4096" using assms by (simp only: cy_def)
  then have u12: "unat (word_of_nat cy :: 12 word) = cy" by (simp add: unat_of_nat)
  have "ucast (word_of_nat cy :: 16 word) = (word_of_nat cy :: 12 word)"
    using lt by (simp add: word_unat_eq_iff unsigned_ucast_eq unat_of_nat take_bit_nat_eq_self)
  then have uc: "ucast (host_current_year host) = (word_of_nat cy :: 12 word)"
    by (simp only: host_current_year_def cy_def)
  show ?thesis
    unfolding cy_def[symmetric] using u12
    by (auto simp: progress_face_setup_def progress_face_load_dates_def Let_def uc
        progress_state_zero_def)
qed

theorem setup_first_run_or_stored_witness:
  "unit_year (local_date_time example_host) + WATCH_RTC_REFERENCE_YEAR example_host < 4096
   \<and> progress_face_setup example_host empty_filesystem (None, 0)
       = (Some (example_state PROGRESS_PAGE_START PROGRESS_SUBPAGE_YEAR range_2025 False), 1)
   \<and> progress_face_setup example_host filesystem_with_2025 (None, 0)
       = (Some (example_state PROGRESS_PAGE_DISPLAY PROGRESS_SUBPAGE_YEAR range_2025 False), 1)"
proof -
  have y: "unit_year (local_date_time example_host) + WATCH_RTC_REFERENCE_YEAR example_host < 4096"
    by (simp add: example_host_def)
  have f: "progress_filename 0 = ''prog000.u64''"
    by (simp add: progress_filename_def dec_digit_def)
  have a: "\<not> filesystem_file_exists empty_filesystem ''prog000.u64''"
    by (simp add: filesystem_file_exists_def empty_filesystem_def)
  have b: "filesystem_file_exists filesystem_with_2025 ''prog000.u64''"
    "filesystem_read_file filesystem_with_2025 ''prog000.u64'' = Some range_2025"
    by (simp_all add: filesystem_file_exists_def filesystem_read_file_def filesystem_with_2025_def)
  from setup_first_run_or_stored[OF y, of empty_filesystem 0]
    setup_first_run_or_stored[OF y, of filesystem_with_2025 0 range_2025] y a b
  show ?thesis
    by (simp add: f example_state_def example_host_def example_dates)
qed

end
